theory Spec2Isabelle
  imports Complex_Main "HOL-Library.AList"
begin

section \<open>Common ground: time, identifiers, strings, exceptions\<close>

text \<open>
  A \<^verbatim>\<open>datetime\<close> is an integer number of microseconds and a \<^verbatim>\<open>timedelta\<close> a difference
  of two of them. The source calls \<^verbatim>\<open>datetime.now()\<close> several times inside one operation;
  an operation of the model takes a \<open>clock\<close>, whose value at \<open>k\<close> is what the \<open>k\<close>-th call
  of \<^verbatim>\<open>datetime.now()\<close> made by that operation returns. Nothing is assumed about a clock:
  the wall clock of the source is not monotone either.

  Fresh identifiers (\<^verbatim>\<open>uuid.uuid4()\<close>) and fresh salts (\<^verbatim>\<open>os.urandom(32).hex()\<close>) are
  arguments of the operation that draws them.

  A Python \<^verbatim>\<open>str\<close> is the list of its code points, for code points below 256.
\<close>

type_synonym time = int
type_synonym clock = "nat \<Rightarrow> time"

definition minutes :: "int \<Rightarrow> time" where
  "minutes n = n * 60000000"

definition hours :: "int \<Rightarrow> time" where
  "hours n = n * 3600000000"

text \<open>An exception that reaches the caller, with the text \<^verbatim>\<open>str(e)\<close> gives.\<close>

datatype error = Exception string

text \<open>
  \<^verbatim>\<open>str.lower()\<close> on code points below 256: the ASCII capitals and the Latin-1 capitals
  (192 to 222 without the multiplication sign 215) move up by 32, every other code point
  stays.
\<close>

definition lower_char :: "char \<Rightarrow> char" where
  "lower_char c =
     (let n = (of_char c :: nat)
      in if (65 \<le> n \<and> n \<le> 90) \<or> (192 \<le> n \<and> n \<le> 222 \<and> n \<noteq> 215)
         then char_of (n + 32) else c)"

definition lower :: "string \<Rightarrow> string" where
  "lower s = map lower_char s"

text \<open>\<^verbatim>\<open>str.startswith\<close>.\<close>

definition startswith :: "string \<Rightarrow> string \<Rightarrow> bool" where
  "startswith s p = (take (length p) s = p)"

section \<open>Session authority (auth.py)\<close>

datatype UserRole = ADMIN | MANAGER | OPERATOR | VIEWER | CUSTOMER | MERCHANT

datatype Permission =
    VIEW_DASHBOARD | VIEW_TRANSACTIONS | PROCESS_PAYMENTS | MANAGE_CARDS | MANAGE_BILLS
  | MANAGE_USERS | MANAGE_MERCHANTS | MANAGE_CUSTOMERS | SYSTEM_SETTINGS | EXPORT_DATA
  | VIEW_REPORTS | FRAUD_MANAGEMENT

text \<open>
  Class \<^verbatim>\<open>User\<close>. Field names that other classes of the repository use too carry the
  class as a suffix.
\<close>

record user =
  id_user :: string
  username :: string
  email :: string
  password_hash :: string
  salt :: string
  role :: UserRole
  first_name :: string
  last_name :: string
  custom_permissions :: "Permission set"
  metadata_user :: "(string \<times> string) list"
  created_at_user :: time
  updated_at_user :: time
  last_login :: "time option"
  failed_login_attempts :: int
  locked_until :: "time option"
  active :: bool

text \<open>An entry of \<^verbatim>\<open>active_sessions\<close>: the dictionary with keys user_id, created_at, expires_at.\<close>

record session =
  user_id :: string
  created_at_session :: time
  expires_at :: time

text \<open>
  Class \<^verbatim>\<open>AuthManager\<close>. Both tables are Python dictionaries: association lists in
  insertion order, whose keys are pairwise distinct. \<^verbatim>\<open>d[k] = v\<close> is \<open>AList.update\<close>
  (in place for a key that is there, at the end for a new one), \<^verbatim>\<open>d.get(k)\<close> is
  \<open>map_of\<close>, \<^verbatim>\<open>del d[k]\<close> is \<open>AList.delete\<close>. The logger and the storage path play no
  part in any result and are left out.
\<close>

record auth_manager =
  users :: "(string \<times> user) list"
  active_sessions :: "(string \<times> session) list"
  max_failed_attempts :: int
  lockout_duration :: time
  session_timeout :: time

text \<open>
  \<^verbatim>\<open>_hash_password(password, salt)\<close> is PBKDF2-HMAC-SHA256 of the standard library, over
  \<^verbatim>\<open>bytes.fromhex(salt)\<close>, which raises for a salt that is not hexadecimal. The model takes
  the whole function as an argument \<open>hashf\<close>: \<open>Inr\<close> the digest, \<open>Inl\<close> the exception.
\<close>

type_synonym hash_password = "string \<Rightarrow> string \<Rightarrow> error + string"

definition AuthManager_init :: auth_manager where
  "AuthManager_init =
     \<lparr>users = [], active_sessions = [], max_failed_attempts = 5,
      lockout_duration = minutes 15, session_timeout = hours 8\<rparr>"

text \<open>\<^verbatim>\<open>User.__init__\<close>, with the identifier it draws and the one clock reading it makes.\<close>

definition User_init ::
  "string \<Rightarrow> time \<Rightarrow> string \<Rightarrow> string \<Rightarrow> string \<Rightarrow> string \<Rightarrow> UserRole \<Rightarrow> string \<Rightarrow> string
     \<Rightarrow> Permission set option \<Rightarrow> user" where
  "User_init new_id now uname mail pw_hash slt rl fname lname perms =
     \<lparr>id_user = new_id, username = uname, email = mail, password_hash = pw_hash, salt = slt,
      role = rl, first_name = fname, last_name = lname,
      custom_permissions = (case perms of None \<Rightarrow> {} | Some ps \<Rightarrow> ps),
      metadata_user = [], created_at_user = now, updated_at_user = now, last_login = None,
      failed_login_attempts = 0, locked_until = None, active = True\<rparr>"

text \<open>
  \<^verbatim>\<open>User.is_locked\<close>. It reads the clock only when \<^verbatim>\<open>locked_until\<close> is set, so it takes
  the index of the next reading and returns the index after it.
\<close>

definition is_locked :: "user \<Rightarrow> clock \<Rightarrow> nat \<Rightarrow> bool \<times> nat" where
  "is_locked u clk i =
     (case locked_until u of
        None \<Rightarrow> (False, i)
      | Some t \<Rightarrow> (clk i < t, Suc i))"

text \<open>
  \<^verbatim>\<open>get_user_by_username\<close> and \<^verbatim>\<open>get_user_by_email\<close> return the first user of the table,
  in insertion order, whose name matches without regard to case. The model returns the
  entry, key and user: the key stands for the reference to the object the source returns
  and later mutates.
\<close>

definition get_user_by_username :: "auth_manager \<Rightarrow> string \<Rightarrow> (string \<times> user) option" where
  "get_user_by_username m uname =
     find (\<lambda>(k, u). lower (username u) = lower uname) (users m)"

definition get_user_by_email :: "auth_manager \<Rightarrow> string \<Rightarrow> (string \<times> user) option" where
  "get_user_by_email m mail =
     find (\<lambda>(k, u). lower (email u) = lower mail) (users m)"

definition get_user :: "auth_manager \<Rightarrow> string \<Rightarrow> user option" where
  "get_user m uid = map_of (users m) uid"

text \<open>
  \<^verbatim>\<open>create_user\<close>: \<open>new_id\<close> is the identifier and \<open>new_salt\<close> the salt it draws, \<open>clk 0\<close>
  the reading of \<^verbatim>\<open>User.__init__\<close>. It returns what the source returns and the manager
  after the call.
\<close>

definition create_user ::
  "hash_password \<Rightarrow> clock \<Rightarrow> string \<Rightarrow> string \<Rightarrow> auth_manager \<Rightarrow> string \<Rightarrow> string \<Rightarrow> string
     \<Rightarrow> UserRole \<Rightarrow> string \<Rightarrow> string \<Rightarrow> Permission set option
     \<Rightarrow> error + (string option \<times> auth_manager)" where
  "create_user hashf clk new_id new_salt m uname mail password rl fname lname perms =
     (if get_user_by_username m uname \<noteq> None \<or> get_user_by_email m mail \<noteq> None
      then Inr (None, m)
      else
        (case hashf password new_salt of
           Inl e \<Rightarrow> Inl e
         | Inr pw_hash \<Rightarrow>
             (let u = User_init new_id (clk 0) uname mail pw_hash new_salt rl fname lname perms
              in Inr (Some (id_user u), m\<lparr>users := AList.update (id_user u) u (users m)\<rparr>))))"

text \<open>\<^verbatim>\<open>authenticate\<close>: \<open>new_sid\<close> is the session identifier it draws on success.\<close>

definition authenticate ::
  "hash_password \<Rightarrow> clock \<Rightarrow> string \<Rightarrow> auth_manager \<Rightarrow> string \<Rightarrow> string
     \<Rightarrow> error + (string option \<times> auth_manager)" where
  "authenticate hashf clk new_sid m uname password =
     (case get_user_by_username m uname of
        None \<Rightarrow> Inr (None, m)
      | Some (k, u) \<Rightarrow>
          if \<not> active u then Inr (None, m)
          else
            (let (locked, i) = is_locked u clk 0
             in if locked then Inr (None, m)
                else
                  (case hashf password (salt u) of
                     Inl e \<Rightarrow> Inl e
                   | Inr pw_hash \<Rightarrow>
                       if pw_hash \<noteq> password_hash u
                       then
                         (let u1 = u\<lparr>failed_login_attempts := failed_login_attempts u + 1,
                                     updated_at_user := clk i\<rparr>;
                              u2 = (if failed_login_attempts u1 \<ge> max_failed_attempts m
                                    then u1\<lparr>locked_until :=
                                              Some (clk (i + 1) + lockout_duration m)\<rparr>
                                    else u1)
                          in Inr (None, m\<lparr>users := AList.update k u2 (users m)\<rparr>))
                       else
                         (let u1 = u\<lparr>failed_login_attempts := 0,
                                     last_login := Some (clk i),
                                     updated_at_user := clk (i + 1)\<rparr>;
                              s = \<lparr>user_id = id_user u1, created_at_session = clk (i + 2),
                                   expires_at = clk (i + 3) + session_timeout m\<rparr>
                          in Inr (Some new_sid,
                                  m\<lparr>users := AList.update k u1 (users m),
                                    active_sessions :=
                                      AList.update new_sid s (active_sessions m)\<rparr>)))))"

text \<open>\<^verbatim>\<open>validate_session\<close>: an expired session is deleted by the check that finds it.\<close>

definition validate_session ::
  "clock \<Rightarrow> auth_manager \<Rightarrow> string \<Rightarrow> string option \<times> auth_manager" where
  "validate_session clk m sid =
     (case map_of (active_sessions m) sid of
        None \<Rightarrow> (None, m)
      | Some s \<Rightarrow>
          if clk 0 > expires_at s
          then (None, m\<lparr>active_sessions := AList.delete sid (active_sessions m)\<rparr>)
          else (Some (user_id s), m))"

text \<open>\<^verbatim>\<open>unlock_user\<close>.\<close>

definition unlock_user :: "clock \<Rightarrow> auth_manager \<Rightarrow> string \<Rightarrow> bool \<times> auth_manager" where
  "unlock_user clk m uid =
     (case get_user m uid of
        None \<Rightarrow> (False, m)
      | Some u \<Rightarrow>
          (True,
           m\<lparr>users :=
               AList.update uid
                 (u\<lparr>locked_until := None, failed_login_attempts := 0,
                    updated_at_user := clk 0\<rparr>)
                 (users m)\<rparr>))"

subsection \<open>Vocabulary of the lockout property\<close>

text \<open>
  A wrong-password attempt is a call of \<^verbatim>\<open>authenticate\<close> that finds the user, active and
  not locked at the reading \<^verbatim>\<open>is_locked\<close> makes, and whose password hashes to something
  else than the stored hash.
\<close>

definition wrong_password_attempt ::
  "hash_password \<Rightarrow> clock \<Rightarrow> auth_manager \<Rightarrow> string \<Rightarrow> string \<Rightarrow> bool" where
  "wrong_password_attempt hashf clk m uname password =
     (case get_user_by_username m uname of
        None \<Rightarrow> False
      | Some (k, u) \<Rightarrow>
          active u \<and> \<not> fst (is_locked u clk 0) \<and>
          (case hashf password (salt u) of
             Inl e \<Rightarrow> False
           | Inr pw_hash \<Rightarrow> pw_hash \<noteq> password_hash u))"

text \<open>
  Consecutive wrong-password attempts on one user name: every call in the list, made in
  the state the calls before it left, is a wrong-password attempt. The result is the
  manager after the last call, and \<open>None\<close> when some call of the list is not a
  wrong-password attempt. An attempt is the clock of the call, the session identifier the
  call would draw and the password tried.
\<close>

fun wrong_attempts ::
  "hash_password \<Rightarrow> string \<Rightarrow> (clock \<times> string \<times> string) list \<Rightarrow> auth_manager
     \<Rightarrow> auth_manager option" where
  "wrong_attempts hashf uname [] m = Some m"
| "wrong_attempts hashf uname ((clk, sid, password) # rest) m =
     (if wrong_password_attempt hashf clk m uname password
      then (case authenticate hashf clk sid m uname password of
              Inr (None, m') \<Rightarrow> wrong_attempts hashf uname rest m'
            | _ \<Rightarrow> None)
      else None)"

text \<open>What the mismatch branch of \<^verbatim>\<open>authenticate\<close> does to the user it found.\<close>

definition failed_attempt :: "auth_manager \<Rightarrow> clock \<Rightarrow> user \<Rightarrow> user" where
  "failed_attempt m clk u =
     (let i = snd (is_locked u clk 0);
          u1 = u\<lparr>failed_login_attempts := failed_login_attempts u + 1,
                  updated_at_user := clk i\<rparr>
      in if failed_login_attempts u1 \<ge> max_failed_attempts m
         then u1\<lparr>locked_until := Some (clk (i + 1) + lockout_duration m)\<rparr>
         else u1)"

subsection \<open>A small instance\<close>

text \<open>
  A stand-in for the key derivation (the password followed by the salt), one user created
  with the defaults of \<^verbatim>\<open>AuthManager\<close>, and four wrong passwords.
\<close>

definition demo_hash :: hash_password where
  "demo_hash password slt = Inr (password @ slt)"

definition demo_user :: user where
  "demo_user = User_init ''u1'' 0 ''alice'' ''a@x.com'' ''pw00'' ''00'' VIEWER '''' '''' None"

definition demo_manager :: auth_manager where
  "demo_manager = AuthManager_init\<lparr>users := [(''u1'', demo_user)]\<rparr>"

definition demo_attempts :: "(clock \<times> string \<times> string) list" where
  "demo_attempts =
     [(\<lambda>k. 10, ''s1'', ''bad''), (\<lambda>k. 20, ''s2'', ''pW''), (\<lambda>k. 30, ''s3'', ''''),
      (\<lambda>k. 40, ''s4'', ''bad'')]"

section \<open>Fraud rule engine (fraud_detection.py)\<close>

datatype FraudRiskLevel = LOW | MEDIUM | HIGH


subsection \<open>Timestamps\<close>

text \<open>
  The timestamp of a transaction is a \<^verbatim>\<open>datetime\<close> object: its wall-clock value, in
  microseconds from 1970-01-01T00:00:00, its \<^verbatim>\<open>fold\<close> and its \<^verbatim>\<open>tzinfo\<close>, or none
  (a naive datetime, as \<^verbatim>\<open>datetime.now()\<close> returns). A \<^verbatim>\<open>tzinfo\<close> object is its identity
  and its \<^verbatim>\<open>utcoffset\<close>, a function of wall-clock value and fold that may return \<^verbatim>\<open>None\<close>.
  The wall-clock values of datetimes lie between \<^verbatim>\<open>datetime.min\<close> and \<^verbatim>\<open>datetime.max\<close>.
\<close>

datatype tzinfo = TzInfo nat "time \<Rightarrow> bool \<Rightarrow> time option"

datatype datetime = DateTime time bool "tzinfo option"

fun wall :: "datetime \<Rightarrow> time" where
  "wall (DateTime w fld tz) = w"

definition datetime_min :: time where
  "datetime_min = - 62135596800000000"

definition datetime_max :: time where
  "datetime_max = 253402300799999999"

fun utcoffset :: "datetime \<Rightarrow> time option" where
  "utcoffset (DateTime w fld None) = None"
| "utcoffset (DateTime w fld (Some (TzInfo n offset))) = offset w fld"

text \<open>Whether two datetimes hold the same \<^verbatim>\<open>tzinfo\<close> object (or both none).\<close>

fun same_tzinfo :: "datetime \<Rightarrow> datetime \<Rightarrow> bool" where
  "same_tzinfo (DateTime w1 f1 None) (DateTime w2 f2 None) = True"
| "same_tzinfo (DateTime w1 f1 (Some (TzInfo n1 o1))) (DateTime w2 f2 (Some (TzInfo n2 o2))) =
     (n1 = n2)"
| "same_tzinfo a b = False"

text \<open>
  \<^verbatim>\<open>datetime - timedelta\<close>: the wall-clock value moves, the \<^verbatim>\<open>tzinfo\<close> stays, the fold is
  reset. A result outside the range of datetimes raises \<^verbatim>\<open>OverflowError\<close>.
\<close>

fun datetime_sub :: "datetime \<Rightarrow> time \<Rightarrow> error + datetime" where
  "datetime_sub (DateTime w fld tz) delta =
     (if datetime_min \<le> w - delta \<and> w - delta \<le> datetime_max
      then Inr (DateTime (w - delta) False tz)
      else Inl (Exception ''date value out of range''))"

text \<open>
  \<^verbatim>\<open>a >= b\<close> on datetimes. With the same \<^verbatim>\<open>tzinfo\<close> object, or with equal offsets (both
  naive included), the wall-clock values are compared; with two different offsets the
  instants are; a naive datetime against an aware one raises \<^verbatim>\<open>TypeError\<close>.
\<close>

definition datetime_ge :: "datetime \<Rightarrow> datetime \<Rightarrow> error + bool" where
  "datetime_ge a b =
     (if same_tzinfo a b \<or> utcoffset a = utcoffset b then Inr (wall a \<ge> wall b)
      else
        (case (utcoffset a, utcoffset b) of
           (Some oa, Some ob) \<Rightarrow> Inr (wall a - oa \<ge> wall b - ob)
         | _ \<Rightarrow> Inl (Exception ''can't compare offset-naive and offset-aware datetimes'')))"

text \<open>
  The list comprehension of the velocity rule, \<^verbatim>\<open>[t for t in ... if t >= cutoff_time]\<close>: the
  first comparison that raises ends it.
\<close>

fun recent_since :: "datetime \<Rightarrow> datetime list \<Rightarrow> error + datetime list" where
  "recent_since cutoff_time [] = Inr []"
| "recent_since cutoff_time (t # ts) =
     (case datetime_ge t cutoff_time of
        Inl e \<Rightarrow> Inl e
      | Inr keep \<Rightarrow>
          (case recent_since cutoff_time ts of
             Inl e \<Rightarrow> Inl e
           | Inr kept \<Rightarrow> Inr (if keep then t # kept else kept)))"

subsection \<open>Transactions and rules\<close>

text \<open>
  The transaction is the dictionary of the external interface: an amount (a number, read
  here as the real it denotes; the rule compares it and does no arithmetic on it), three
  texts, the entity key and the timestamp. \<open>None\<close> is an absent key, for which the rules
  use the default of their \<^verbatim>\<open>get\<close>.
\<close>

record transaction =
  id_transaction :: "string option"
  amount :: "real option"
  country :: "string option"
  merchant :: "string option"
  description_transaction :: "string option"
  card_id :: "string option"
  timestamp :: "datetime option"

text \<open>
  The message of an outcome. The two rules modelled in full build theirs with an f-string
  around numbers; the model keeps the numbers (the amount and the threshold; the count
  and the window) and leaves their rendering to Python.
\<close>

datatype message =
    Text string
  | AmountExceedsThreshold real real
  | VelocityCount nat time

type_synonym rule_result = "bool \<times> FraudRiskLevel \<times> message"

text \<open>
  The rules. \<^verbatim>\<open>AmountThresholdRule\<close> holds its threshold; \<^verbatim>\<open>VelocityCheckRule\<close> holds
  \<^verbatim>\<open>max_transactions\<close>, \<^verbatim>\<open>time_window\<close> (a \<^verbatim>\<open>timedelta\<close>, in microseconds: \<open>minutes 5\<close>
  for \<^verbatim>\<open>timedelta(minutes=5)\<close>) and \<^verbatim>\<open>transaction_history\<close>, the dictionary from entity key
  to the timestamps kept. Every other rule (the base class, whose \<^verbatim>\<open>evaluate\<close>
  raises \<^verbatim>\<open>NotImplementedError\<close>, the geographic and the pattern rule, a subclass of the
  caller) keeps no state between evaluations: it is its name and its \<^verbatim>\<open>evaluate\<close>, which
  returns a result or raises. The rules of an engine are distinct objects.
\<close>

datatype rule =
    AmountThresholdRule real
  | VelocityCheckRule int time "(string \<times> datetime list) list"
  | OtherRule string "transaction \<Rightarrow> error + rule_result"



text \<open>
  \<^verbatim>\<open>evaluate\<close>: the result, or the exception, together with the rule after the call and the
  index of the next clock reading. Only the velocity rule reads the clock, once in every
  call, for the default of the timestamp, which Python computes whether or not the key is
  there. The velocity rule appends the timestamp to the history of the entity before it
  computes the cutoff and compares: when the subtraction or a comparison raises, the
  history is left with the timestamp appended and nothing removed.
\<close>

fun evaluate ::
  "rule \<Rightarrow> clock \<Rightarrow> nat \<Rightarrow> transaction \<Rightarrow> (error + rule_result) \<times> rule \<times> nat" where
  "evaluate (AmountThresholdRule threshold) clk i tx =
     (let amt = (case amount tx of None \<Rightarrow> 0 | Some a \<Rightarrow> a)
      in (Inr (if amt > threshold
               then (True, MEDIUM, AmountExceedsThreshold amt threshold)
               else (False, LOW, Text '''')),
          AmountThresholdRule threshold, i))"
| "evaluate (VelocityCheckRule max_transactions time_window history) clk i tx =
     (let ts = (case timestamp tx of None \<Rightarrow> DateTime (clk i) False None | Some t \<Rightarrow> t)
      in case card_id tx of
           None \<Rightarrow>
             (Inr (False, LOW, Text ''''),
              VelocityCheckRule max_transactions time_window history, Suc i)
         | Some c \<Rightarrow>
             if c = []
             then (Inr (False, LOW, Text ''''),
                   VelocityCheckRule max_transactions time_window history, Suc i)
             else
               (let seen = (case map_of history c of None \<Rightarrow> [] | Some l \<Rightarrow> l) @ [ts];
                    appended = AList.update c seen history
                in case datetime_sub ts time_window of
                     Inl e \<Rightarrow>
                       (Inl e, VelocityCheckRule max_transactions time_window appended, Suc i)
                   | Inr cutoff_time \<Rightarrow>
                       (case recent_since cutoff_time seen of
                          Inl e \<Rightarrow>
                            (Inl e, VelocityCheckRule max_transactions time_window appended,
                             Suc i)
                        | Inr recent_transactions \<Rightarrow>
                            (Inr (if int (length recent_transactions) > max_transactions
                                  then (True, HIGH,
                                        VelocityCount (length recent_transactions) time_window)
                                  else (False, LOW, Text '''')),
                             VelocityCheckRule max_transactions time_window
                               (AList.update c recent_transactions history),
                             Suc i))))"
| "evaluate (OtherRule n f) clk i tx = (f tx, OtherRule n f, i)"

text \<open>An entry of the list \<^verbatim>\<open>evaluate_transaction\<close> returns.\<close>

record fraud_result =
  rule_name :: string
  risk_level :: FraudRiskLevel
  message :: message

record fraud_engine =
  rules :: "rule list"

definition add_rule :: "fraud_engine \<Rightarrow> rule \<Rightarrow> fraud_engine" where
  "add_rule e r = e\<lparr>rules := rules e @ [r]\<rparr>"



subsection \<open>Vocabulary of the fraud properties\<close>




text \<open>
  One rule evaluated on a sequence of transactions, each with the clock of its call: the
  results in order and the rule after the last call.
\<close>

fun evaluate_each ::
  "rule \<Rightarrow> (clock \<times> transaction) list \<Rightarrow> (error + rule_result) list \<times> rule" where
  "evaluate_each r [] = ([], r)"
| "evaluate_each r ((clk, tx) # rest) =
     (case evaluate r clk 0 tx of
        (res, r', i) \<Rightarrow> (case evaluate_each r' rest of (ress, r'') \<Rightarrow> (res # ress, r'')))"

text \<open>The timestamps the velocity rule keeps for an entity.\<close>

fun history_of :: "rule \<Rightarrow> string \<Rightarrow> datetime list" where
  "history_of (VelocityCheckRule max_transactions time_window history) c =
     (case map_of history c of None \<Rightarrow> [] | Some l \<Rightarrow> l)"
| "history_of r c = []"

text \<open>A naive datetime, and a transaction on a card at one.\<close>

definition naive :: "time \<Rightarrow> datetime" where
  "naive t = DateTime t False None"


definition card_transaction :: "string \<Rightarrow> time \<Rightarrow> transaction" where
  "card_transaction c t =
     \<lparr>id_transaction = None, amount = None, country = None, merchant = None,
      description_transaction = None, card_id = Some c, timestamp = Some (naive t)\<rparr>"

subsection \<open>A small instance\<close>





text \<open>A \<^verbatim>\<open>tzinfo\<close> with offset zero, as \<^verbatim>\<open>timezone.utc\<close>.\<close>

definition utc :: tzinfo where
  "utc = TzInfo 0 (\<lambda>w fld. Some 0)"

section \<open>Batch execution engine (batch_processing.py)\<close>

datatype BatchStatus = PENDING | PROCESSING | COMPLETED | FAILED | PARTIALLY_COMPLETED

datatype BatchType =
  PAYMENT | REFUND | TRANSFER | CARD_ISSUANCE | CUSTOMER_IMPORT | MERCHANT_IMPORT

fun value_BatchType :: "BatchType \<Rightarrow> string" where
  "value_BatchType PAYMENT = ''Payment''"
| "value_BatchType REFUND = ''Refund''"
| "value_BatchType TRANSFER = ''Transfer''"
| "value_BatchType CARD_ISSUANCE = ''Card Issuance''"
| "value_BatchType CUSTOMER_IMPORT = ''Customer Import''"
| "value_BatchType MERCHANT_IMPORT = ''Merchant Import''"

text \<open>
  The payload of an item is a dictionary from field names to values. The values are the
  texts a CSV cell holds, or \<^verbatim>\<open>None\<close>, which the CSV reader gives a field a short row does
  not reach.
\<close>

type_synonym payload = "(string \<times> string option) list"

record batch_item =
  id_item :: string
  data :: payload
  status_item :: string
  error_message :: "string option"
  processed_at :: "time option"

definition BatchItem_init :: "string \<Rightarrow> payload \<Rightarrow> batch_item" where
  "BatchItem_init new_id d =
     \<lparr>id_item = new_id, data = d, status_item = ''Pending'', error_message = None,
      processed_at = None\<rparr>"

record batch_job =
  id_job :: string
  name_job :: string
  batch_type :: BatchType
  items :: "batch_item list"
  description_job :: string
  metadata_job :: "(string \<times> string) list"
  created_at_job :: time
  updated_at_job :: time
  started_at :: "time option"
  completed_at :: "time option"
  status :: BatchStatus
  total_items :: int
  processed_items :: int
  successful_items :: int
  failed_items :: int

text \<open>\<^verbatim>\<open>BatchJob.__init__\<close>, with the identifier it draws and its clock reading.\<close>

definition BatchJob_init ::
  "string \<Rightarrow> time \<Rightarrow> string \<Rightarrow> BatchType \<Rightarrow> batch_item list \<Rightarrow> string
     \<Rightarrow> (string \<times> string) list option \<Rightarrow> batch_job" where
  "BatchJob_init new_id now nm bt its descr meta =
     \<lparr>id_job = new_id, name_job = nm, batch_type = bt, items = its, description_job = descr,
      metadata_job = (case meta of None \<Rightarrow> [] | Some md \<Rightarrow> md),
      created_at_job = now, updated_at_job = now, started_at = None, completed_at = None,
      status = PENDING, total_items = int (length its), processed_items = 0,
      successful_items = 0, failed_items = 0\<rparr>"

text \<open>
  What the loop reads of the dictionary a processor returns: the key success (absent:
  \<open>None\<close>, which counts as false) and the key error (absent: \<open>None\<close>, for which the loop
  writes Unknown error).
\<close>

record processor_result =
  success :: "bool option"
  error_result :: "string option"

text \<open>
  The processing function is a callback. It may keep state of its own and may raise: it
  takes its state, the payload and the batch type and returns its result, or the
  exception, and its state after the call.
\<close>

type_synonym 'p process_function =
  "'p \<Rightarrow> payload \<Rightarrow> BatchType \<Rightarrow> (error + processor_result) \<times> 'p"

text \<open>
  The body of the loop of \<^verbatim>\<open>process_batch\<close>, in the two parts the source has. The
  first is the \<^verbatim>\<open>try\<close> statement with its handler: it writes the status of the item, and
  its error message, and counts the item as successful or failed. \<open>k\<close> is the position
  of the item in the list of the job, where the source mutates the item object; the
  result is the item and the job after this part.
\<close>

definition count_outcome ::
  "error + processor_result \<Rightarrow> nat \<Rightarrow> batch_item \<Rightarrow> batch_job \<Rightarrow> batch_item \<times> batch_job" where
  "count_outcome res k item job =
     (case res of
        Inr result \<Rightarrow>
          if success result = Some True
          then (let item1 = item\<lparr>status_item := ''Completed''\<rparr>
                in (item1, job\<lparr>items := (items job)[k := item1],
                               successful_items := successful_items job + 1\<rparr>))
          else (let item1 = item\<lparr>status_item := ''Failed'',
                                 error_message :=
                                   Some (case error_result result of
                                           None \<Rightarrow> ''Unknown error'' | Some msg \<Rightarrow> msg)\<rparr>
                in (item1, job\<lparr>items := (items job)[k := item1],
                               failed_items := failed_items job + 1\<rparr>))
      | Inl (Exception msg) \<Rightarrow>
          (let item1 = item\<lparr>status_item := ''Failed'', error_message := Some msg\<rparr>
           in (item1, job\<lparr>items := (items job)[k := item1],
                          failed_items := failed_items job + 1\<rparr>)))"

text \<open>
  The second part, the three statements after the \<^verbatim>\<open>try\<close>: the item is stamped and
  the job counts it as processed. \<open>i\<close> is the index of the next clock reading.
\<close>

definition stamp_item :: "clock \<Rightarrow> nat \<Rightarrow> nat \<Rightarrow> batch_item \<Rightarrow> batch_job \<Rightarrow> batch_job" where
  "stamp_item clk i k item job =
     job\<lparr>items := (items job)[k := item\<lparr>processed_at := Some (clk i)\<rparr>],
         processed_items := processed_items job + 1,
         updated_at_job := clk (i + 1)\<rparr>"

text \<open>The loop over the items, in their order.\<close>

fun process_items ::
  "'p process_function \<Rightarrow> clock \<Rightarrow> nat \<Rightarrow> 'p \<Rightarrow> batch_item list \<Rightarrow> nat \<Rightarrow> batch_job
     \<Rightarrow> batch_job \<times> 'p \<times> nat" where
  "process_items pf clk i ps [] k job = (job, ps, i)"
| "process_items pf clk i ps (item # rest) k job =
     (case pf ps (data item) (batch_type job) of
        (res, ps') \<Rightarrow>
          (case count_outcome res k item job of
             (item1, job1) \<Rightarrow>
               process_items pf clk (i + 2) ps' rest (Suc k) (stamp_item clk i k item1 job1)))"

text \<open>
  \<^verbatim>\<open>process_batch\<close>. The processor holds a processing function or none; the job and the
  state of the processing function after the call are returned.
\<close>

definition process_batch ::
  "'p process_function option \<Rightarrow> 'p \<Rightarrow> clock \<Rightarrow> batch_job \<Rightarrow> batch_job \<times> 'p" where
  "process_batch process_function ps clk batch_job =
     (case process_function of
        None \<Rightarrow> (batch_job\<lparr>status := FAILED, updated_at_job := clk 0\<rparr>, ps)
      | Some pf \<Rightarrow>
          (let job1 = batch_job\<lparr>status := PROCESSING, started_at := Some (clk 0),
                               updated_at_job := clk 1\<rparr>
           in case process_items pf clk 2 ps (items job1) 0 job1 of
                (job2, ps', i) \<Rightarrow>
                  (job2\<lparr>status :=
                          (if failed_items job2 = 0 then COMPLETED
                           else if successful_items job2 = 0 then FAILED
                           else PARTIALLY_COMPLETED),
                        completed_at := Some (clk i),
                        updated_at_job := clk (i + 1)\<rparr>,
                   ps')))"

subsection \<open>The manager: jobs, CSV export and import\<close>

text \<open>
  Of \<^verbatim>\<open>BatchManager\<close> the table of jobs, a dictionary by job identifier. The processors
  it also holds take no part in creating, exporting or importing a job.
\<close>

record batch_manager =
  batch_jobs :: "(string \<times> batch_job) list"

definition get_batch_job :: "batch_manager \<Rightarrow> string \<Rightarrow> batch_job option" where
  "get_batch_job m job_id = map_of (batch_jobs m) job_id"

text \<open>
  \<^verbatim>\<open>create_batch_job\<close>: \<open>uuid j\<close> is the \<open>j\<close>-th identifier the call draws, one for each
  item in order and then one for the job.
\<close>

definition create_batch_job ::
  "(nat \<Rightarrow> string) \<Rightarrow> clock \<Rightarrow> batch_manager \<Rightarrow> string \<Rightarrow> BatchType \<Rightarrow> payload list \<Rightarrow> string
     \<Rightarrow> (string \<times> string) list option \<Rightarrow> string \<times> batch_manager" where
  "create_batch_job uuid clk m nm bt its descr meta =
     (let batch_items = map (\<lambda>(j, d). BatchItem_init (uuid j) d) (enumerate 0 its);
          batch_job = BatchJob_init (uuid (length its)) (clk 0) nm bt batch_items descr
                        (Some (case meta of None \<Rightarrow> [] | Some md \<Rightarrow> md))
      in (id_job batch_job,
          m\<lparr>batch_jobs := AList.update (id_job batch_job) batch_job (batch_jobs m)\<rparr>))"

text \<open>
  A CSV file is the rows \<^verbatim>\<open>csv.writer\<close> wrote to it, the header first, each a list of
  cells; the file is opened in an encoding that has every character of its cells. The
  quoting is the library's and \<^verbatim>\<open>csv.reader\<close> gives back the cells that were written, with
  one exception: on a row with a cell of more than \<^verbatim>\<open>csv.field_size_limit()\<close> characters
  it raises \<^verbatim>\<open>csv.Error\<close>.
\<close>

type_synonym csv_file = "string list list"

definition field_size_limit :: nat where
  "field_size_limit = 131072"

definition reader_row :: "string list \<Rightarrow> error + string list" where
  "reader_row row =
     (if \<exists>cell \<in> set row. field_size_limit < length cell
      then Inl (Exception ''field larger than field limit (131072)'')
      else Inr row)"

text \<open>
  The row \<^verbatim>\<open>_export_to_csv\<close> builds for an item: the four fixed fields, then every field of
  the payload under its name with \<^verbatim>\<open>data_\<close> before it. \<open>isoformat\<close> renders a time.
\<close>

definition export_row :: "(time \<Rightarrow> string) \<Rightarrow> batch_item \<Rightarrow> (string \<times> string option) list" where
  "export_row isoformat item =
     foldl (\<lambda>row (key, v). AList.update (''data_'' @ key) v row)
       [(''id'', Some (id_item item)),
        (''status'', Some (status_item item)),
        (''error_message'', Some (case error_message item of None \<Rightarrow> '''' | Some e \<Rightarrow> e)),
        (''processed_at'',
           Some (case processed_at item of None \<Rightarrow> '''' | Some t \<Rightarrow> isoformat t))]
       (data item)"

text \<open>
  \<^verbatim>\<open>csv.DictWriter.writerow\<close>: a key that is no field name raises \<^verbatim>\<open>ValueError\<close>;
  otherwise the cells follow the field names, empty where the row has no such key or has
  \<^verbatim>\<open>None\<close>.
\<close>

definition writerow :: "string list \<Rightarrow> (string \<times> string option) list \<Rightarrow> error + string list" where
  "writerow fieldnames row =
     (if \<exists>key \<in> set (map fst row). key \<notin> set fieldnames
      then Inl (Exception ''dict contains fields not in fieldnames'')
      else Inr (map (\<lambda>h. case map_of row h of
                            None \<Rightarrow> '''' | Some None \<Rightarrow> '''' | Some (Some v) \<Rightarrow> v)
                  fieldnames))"

text \<open>The loop writing the items: it stops at the first row that raises.\<close>

fun write_items ::
  "(time \<Rightarrow> string) \<Rightarrow> string list \<Rightarrow> batch_item list \<Rightarrow> bool \<times> csv_file" where
  "write_items isoformat fieldnames [] = (True, [])"
| "write_items isoformat fieldnames (item # rest) =
     (case writerow fieldnames (export_row isoformat item) of
        Inl e \<Rightarrow> (False, [])
      | Inr cells \<Rightarrow>
          (case write_items isoformat fieldnames rest of
             (ok, written) \<Rightarrow> (ok, cells # written)))"

text \<open>
  \<^verbatim>\<open>_export_to_csv\<close>: what it returns and the file it leaves. The field names come from
  the payload of the first item. An exception is caught, \<^verbatim>\<open>False\<close> is returned, and the
  file holds what was written before it.
\<close>

definition export_to_csv :: "(time \<Rightarrow> string) \<Rightarrow> batch_job \<Rightarrow> bool \<times> csv_file" where
  "export_to_csv isoformat batch_job =
     (let headers =
            [''id'', ''status'', ''error_message'', ''processed_at'']
              @ (case items batch_job of
                   [] \<Rightarrow> []
                 | first # _ \<Rightarrow> map (\<lambda>(key, v). ''data_'' @ key) (data first))
      in case write_items isoformat headers (items batch_job) of
           (ok, written) \<Rightarrow> (ok, headers # written))"

text \<open>
  A row as \<^verbatim>\<open>csv.DictReader\<close> gives it: the field names zipped with the cells, a later
  duplicate of a field name overwriting the earlier one; a field name the row does not
  reach gets \<^verbatim>\<open>None\<close>. When the row has more cells than there are field names the
  dictionary also gets the key \<^verbatim>\<open>None\<close> for the rest, last: the second component says so.
\<close>

definition DictReader_row :: "string list \<Rightarrow> string list \<Rightarrow> (string \<times> string option) list \<times> bool" where
  "DictReader_row fieldnames row =
     (foldl (\<lambda>d (key, v). AList.update key v d) []
        (zip fieldnames (map Some row @ replicate (length fieldnames - length row) None)),
      length fieldnames < length row)"

text \<open>The test of \<^verbatim>\<open>import_batch_from_csv\<close> on a field name.\<close>

definition special_prefix :: "string \<Rightarrow> bool" where
  "special_prefix key =
     (startswith key ''id'' \<or> startswith key ''status'' \<or> startswith key ''error''
      \<or> startswith key ''processed'')"

text \<open>
  The payload \<^verbatim>\<open>import_batch_from_csv\<close> makes of one row. On the key \<^verbatim>\<open>None\<close> its test
  raises \<^verbatim>\<open>AttributeError\<close>.
\<close>

definition import_row :: "string list \<Rightarrow> string list \<Rightarrow> error + payload" where
  "import_row fieldnames row =
     (case DictReader_row fieldnames row of
        (d, rest_key) \<Rightarrow>
          if rest_key
          then Inl (Exception ''NoneType object has no attribute startswith'')
          else Inr (filter (\<lambda>(key, v). \<not> special_prefix key) d))"

text \<open>
  The loop over the rows of the reader. A row is read, which may raise; an empty row is
  passed over.
\<close>

fun import_rows :: "string list \<Rightarrow> string list list \<Rightarrow> error + payload list" where
  "import_rows fieldnames [] = Inr []"
| "import_rows fieldnames (row # rest) =
     (case reader_row row of
        Inl e \<Rightarrow> Inl e
      | Inr cells \<Rightarrow>
          if cells = [] then import_rows fieldnames rest
          else
            (case import_row fieldnames cells of
               Inl e \<Rightarrow> Inl e
             | Inr item_data \<Rightarrow>
                 (case import_rows fieldnames rest of
                    Inl e \<Rightarrow> Inl e
                  | Inr its \<Rightarrow> Inr (item_data # its))))"

text \<open>
  \<^verbatim>\<open>import_batch_from_csv\<close>, on the file it opens. The reader takes the first row for the
  field names, then the loop runs. Any exception is caught and \<^verbatim>\<open>None\<close> returned, with no
  job created. Without a name the call reads the clock for one and \<open>strftime\<close> renders the
  reading; the reading of \<^verbatim>\<open>BatchJob.__init__\<close> comes after it.
\<close>

definition import_batch_from_csv ::
  "(time \<Rightarrow> string) \<Rightarrow> (nat \<Rightarrow> string) \<Rightarrow> clock \<Rightarrow> batch_manager \<Rightarrow> csv_file \<Rightarrow> BatchType
     \<Rightarrow> string option \<Rightarrow> string \<Rightarrow> (string \<times> string) list option
     \<Rightarrow> string option \<times> batch_manager" where
  "import_batch_from_csv strftime uuid clk m file bt nm descr meta =
     (case (case file of
              [] \<Rightarrow> Inr []
            | header # rws \<Rightarrow>
                (case reader_row header of
                   Inl e \<Rightarrow> Inl e
                 | Inr fieldnames \<Rightarrow> import_rows fieldnames rws)) of
        Inl e \<Rightarrow> (None, m)
      | Inr its \<Rightarrow>
          (let given = (case nm of None \<Rightarrow> [] | Some n \<Rightarrow> n);
               nm' = (if given = []
                      then ''Imported '' @ value_BatchType bt @ '' Batch - '' @ strftime (clk 0)
                      else given);
               clk' = (if given = [] then (\<lambda>k. clk (Suc k)) else clk)
           in case create_batch_job uuid clk' m nm' bt its descr meta of
                (job_id, m') \<Rightarrow> (Some job_id, m')))"

subsection \<open>Structured records: \<^verbatim>\<open>to_dict\<close> and \<^verbatim>\<open>from_dict\<close>\<close>

text \<open>
  The dictionary \<^verbatim>\<open>BatchItem.to_dict\<close> makes, key by key; \<^verbatim>\<open>processed_at\<close> is the ISO text
  of the time, or \<^verbatim>\<open>None\<close>.
\<close>

record item_record =
  id_item_rec :: string
  data_rec :: payload
  status_item_rec :: string
  error_message_rec :: "string option"
  processed_at_rec :: "string option"

text \<open>
  The dictionary \<^verbatim>\<open>BatchJob.to_dict\<close> makes: the enumerations by their values, the times
  as ISO texts, the items as their dictionaries.
\<close>

record job_record =
  id_job_rec :: string
  name_rec :: string
  batch_type_rec :: string
  description_rec :: string
  metadata_rec :: "(string \<times> string) list"
  created_at_rec :: string
  updated_at_rec :: string
  started_at_rec :: "string option"
  completed_at_rec :: "string option"
  status_job_rec :: string
  total_items_rec :: int
  processed_items_rec :: int
  successful_items_rec :: int
  failed_items_rec :: int
  items_rec :: "item_record list"

fun value_BatchStatus :: "BatchStatus \<Rightarrow> string" where
  "value_BatchStatus PENDING = ''Pending''"
| "value_BatchStatus PROCESSING = ''Processing''"
| "value_BatchStatus COMPLETED = ''Completed''"
| "value_BatchStatus FAILED = ''Failed''"
| "value_BatchStatus PARTIALLY_COMPLETED = ''Partially Completed''"

text \<open>
  \<^verbatim>\<open>BatchType(label)\<close> and \<^verbatim>\<open>BatchStatus(label)\<close>: the member with that value, or
  \<^verbatim>\<open>ValueError\<close>, whose text holds \<^verbatim>\<open>repr\<close> of the label; \<open>repr\<close> is the library's.
\<close>

definition BatchType_of :: "(string \<Rightarrow> string) \<Rightarrow> string \<Rightarrow> error + BatchType" where
  "BatchType_of repr label =
     (if label = ''Payment'' then Inr PAYMENT
      else if label = ''Refund'' then Inr REFUND
      else if label = ''Transfer'' then Inr TRANSFER
      else if label = ''Card Issuance'' then Inr CARD_ISSUANCE
      else if label = ''Customer Import'' then Inr CUSTOMER_IMPORT
      else if label = ''Merchant Import'' then Inr MERCHANT_IMPORT
      else Inl (Exception (repr label @ '' is not a valid BatchType'')))"

definition BatchStatus_of :: "(string \<Rightarrow> string) \<Rightarrow> string \<Rightarrow> error + BatchStatus" where
  "BatchStatus_of repr label =
     (if label = ''Pending'' then Inr PENDING
      else if label = ''Processing'' then Inr PROCESSING
      else if label = ''Completed'' then Inr COMPLETED
      else if label = ''Failed'' then Inr FAILED
      else if label = ''Partially Completed'' then Inr PARTIALLY_COMPLETED
      else Inl (Exception (repr label @ '' is not a valid BatchStatus'')))"

text \<open>\<^verbatim>\<open>BatchItem.to_dict\<close>; \<open>isoformat\<close> is \<^verbatim>\<open>datetime.isoformat\<close>.\<close>

definition BatchItem_to_dict :: "(time \<Rightarrow> string) \<Rightarrow> batch_item \<Rightarrow> item_record" where
  "BatchItem_to_dict isoformat item =
     \<lparr>id_item_rec = id_item item, data_rec = data item, status_item_rec = status_item item,
      error_message_rec = error_message item,
      processed_at_rec =
        (case processed_at item of None \<Rightarrow> None | Some t \<Rightarrow> Some (isoformat t))\<rparr>"

text \<open>
  \<^verbatim>\<open>BatchItem.from_dict\<close>: a new item (with a fresh identifier, overwritten at once) takes
  the identifier, the status and the error message of the dictionary, and the time when
  the text is there and not empty. \<open>fromisoformat\<close> is \<^verbatim>\<open>datetime.fromisoformat\<close>, which
  raises on a text it cannot read.
\<close>

definition BatchItem_from_dict ::
  "(string \<Rightarrow> error + time) \<Rightarrow> string \<Rightarrow> item_record \<Rightarrow> error + batch_item" where
  "BatchItem_from_dict fromisoformat new_id d =
     (let item = (BatchItem_init new_id (data_rec d))
                   \<lparr>id_item := id_item_rec d, status_item := status_item_rec d,
                    error_message := error_message_rec d\<rparr>
      in case processed_at_rec d of
           None \<Rightarrow> Inr item
         | Some s \<Rightarrow>
             if s = [] then Inr item
             else (case fromisoformat s of
                     Inl e \<Rightarrow> Inl e
                   | Inr t \<Rightarrow> Inr (item\<lparr>processed_at := Some t\<rparr>)))"

text \<open>The list comprehension over the items; \<open>j\<close> counts the identifiers drawn.\<close>

fun items_from_dict ::
  "(string \<Rightarrow> error + time) \<Rightarrow> (nat \<Rightarrow> string) \<Rightarrow> nat \<Rightarrow> item_record list
     \<Rightarrow> error + batch_item list" where
  "items_from_dict fromisoformat uuid j [] = Inr []"
| "items_from_dict fromisoformat uuid j (d # ds) =
     (case BatchItem_from_dict fromisoformat (uuid j) d of
        Inl e \<Rightarrow> Inl e
      | Inr item \<Rightarrow>
          (case items_from_dict fromisoformat uuid (Suc j) ds of
             Inl e \<Rightarrow> Inl e
           | Inr its \<Rightarrow> Inr (item # its)))"

text \<open>\<^verbatim>\<open>BatchJob.to_dict\<close>.\<close>

definition BatchJob_to_dict :: "(time \<Rightarrow> string) \<Rightarrow> batch_job \<Rightarrow> job_record" where
  "BatchJob_to_dict isoformat job =
     \<lparr>id_job_rec = id_job job, name_rec = name_job job,
      batch_type_rec = value_BatchType (batch_type job),
      description_rec = description_job job, metadata_rec = metadata_job job,
      created_at_rec = isoformat (created_at_job job),
      updated_at_rec = isoformat (updated_at_job job),
      started_at_rec = (case started_at job of None \<Rightarrow> None | Some t \<Rightarrow> Some (isoformat t)),
      completed_at_rec = (case completed_at job of None \<Rightarrow> None | Some t \<Rightarrow> Some (isoformat t)),
      status_job_rec = value_BatchStatus (status job),
      total_items_rec = total_items job, processed_items_rec = processed_items job,
      successful_items_rec = successful_items job, failed_items_rec = failed_items job,
      items_rec = map (BatchItem_to_dict isoformat) (items job)\<rparr>"

text \<open>
  \<^verbatim>\<open>BatchJob.from_dict\<close>, in the order of the source: the batch type, the items, a new job
  (with a fresh identifier and the clock reading of \<^verbatim>\<open>BatchJob.__init__\<close>, both overwritten),
  then the identifier, the times, the status and the counters of the dictionary.
\<close>

definition optional_time ::
  "(string \<Rightarrow> error + time) \<Rightarrow> string option \<Rightarrow> error + time option" where
  "optional_time fromisoformat text =
     (case text of
        None \<Rightarrow> Inr None
      | Some s \<Rightarrow>
          if s = [] then Inr None
          else (case fromisoformat s of Inl e \<Rightarrow> Inl e | Inr t \<Rightarrow> Inr (Some t)))"

definition BatchJob_from_dict ::
  "(string \<Rightarrow> string) \<Rightarrow> (string \<Rightarrow> error + time) \<Rightarrow> (nat \<Rightarrow> string) \<Rightarrow> clock \<Rightarrow> job_record
     \<Rightarrow> error + batch_job" where
  "BatchJob_from_dict repr fromisoformat uuid clk d =
     (case BatchType_of repr (batch_type_rec d) of
        Inl e \<Rightarrow> Inl e
      | Inr bt \<Rightarrow>
     (case items_from_dict fromisoformat uuid 0 (items_rec d) of
        Inl e \<Rightarrow> Inl e
      | Inr its \<Rightarrow>
     (let job = (BatchJob_init (uuid (length its)) (clk 0) (name_rec d) bt its
                   (description_rec d) (Some (metadata_rec d)))
                  \<lparr>id_job := id_job_rec d\<rparr>
      in
     (case fromisoformat (created_at_rec d) of
        Inl e \<Rightarrow> Inl e
      | Inr created \<Rightarrow>
     (case fromisoformat (updated_at_rec d) of
        Inl e \<Rightarrow> Inl e
      | Inr updated \<Rightarrow>
     (case optional_time fromisoformat (started_at_rec d) of
        Inl e \<Rightarrow> Inl e
      | Inr started \<Rightarrow>
     (case optional_time fromisoformat (completed_at_rec d) of
        Inl e \<Rightarrow> Inl e
      | Inr completed \<Rightarrow>
     (case BatchStatus_of repr (status_job_rec d) of
        Inl e \<Rightarrow> Inl e
      | Inr st \<Rightarrow>
          Inr (job\<lparr>created_at_job := created, updated_at_job := updated,
                   started_at := started, completed_at := completed, status := st,
                   total_items := total_items_rec d,
                   processed_items := processed_items_rec d,
                   successful_items := successful_items_rec d,
                   failed_items := failed_items_rec d\<rparr>)))))))))"

subsection \<open>Vocabulary of the batch properties\<close>

text \<open>Whether a call of the processing function counts as a success in the loop.\<close>

definition succeeded :: "error + processor_result \<Rightarrow> bool" where
  "succeeded res = (case res of Inl e \<Rightarrow> False | Inr result \<Rightarrow> success result = Some True)"

text \<open>
  The outcomes of the calls of the processing function on the items in order, each call
  in the state the one before it left.
\<close>

fun item_outcomes :: "'p process_function \<Rightarrow> 'p \<Rightarrow> BatchType \<Rightarrow> batch_item list \<Rightarrow> bool list" where
  "item_outcomes pf ps bt [] = []"
| "item_outcomes pf ps bt (item # rest) =
     (case pf ps (data item) bt of
        (res, ps') \<Rightarrow> succeeded res # item_outcomes pf ps' bt rest)"

text \<open>The job as \<^verbatim>\<open>process_batch\<close> has it when it enters the loop.\<close>

definition started_job :: "clock \<Rightarrow> batch_job \<Rightarrow> batch_job" where
  "started_job clk batch_job =
     batch_job\<lparr>status := PROCESSING, started_at := Some (clk 0), updated_at_job := clk 1\<rparr>"

text \<open>
  The job at the points where the loop stands between two items: after the first \<open>n\<close>
  items are processed, for every \<open>n\<close> up to the number of items; and the job
  \<^verbatim>\<open>process_batch\<close> leaves.
\<close>

definition job_after :: "'p process_function \<Rightarrow> 'p \<Rightarrow> clock \<Rightarrow> batch_job \<Rightarrow> nat \<Rightarrow> batch_job" where
  "job_after pf ps clk batch_job n =
     fst (process_items pf clk 2 ps (take n (items batch_job)) 0 (started_job clk batch_job))"

text \<open>
  The job while item \<open>n\<close> is being processed, between the two parts of the body: the
  outcome of the item is counted, the item is not yet counted as processed.
\<close>

definition job_within :: "'p process_function \<Rightarrow> 'p \<Rightarrow> clock \<Rightarrow> batch_job \<Rightarrow> nat \<Rightarrow> batch_job" where
  "job_within pf ps clk batch_job n =
     (case process_items pf clk 2 ps (take n (items batch_job)) 0 (started_job clk batch_job) of
        (jn, psn, i_n) \<Rightarrow>
          (case drop n (items batch_job) of
             [] \<Rightarrow> jn
           | item # rest \<Rightarrow>
               (case pf psn (data item) (batch_type jn) of
                  (res, ps') \<Rightarrow> snd (count_outcome res n item jn))))"

definition job_states :: "'p process_function \<Rightarrow> 'p \<Rightarrow> clock \<Rightarrow> batch_job \<Rightarrow> batch_job list" where
  "job_states pf ps clk batch_job =
     map (job_after pf ps clk batch_job) [0..<Suc (length (items batch_job))]
       @ [fst (process_batch (Some pf) ps clk batch_job)]"

text \<open>The invariant of the counters.\<close>

definition counters_consistent :: "nat \<Rightarrow> batch_job \<Rightarrow> bool" where
  "counters_consistent n_created j =
     (processed_items j = successful_items j + failed_items j
      \<and> processed_items j \<le> total_items j
      \<and> total_items j = int n_created)"

subsection \<open>A small instance\<close>

text \<open>
  A processing function that counts its calls: it succeeds on a payload with an amount,
  reports a failure on one without, and raises on an amount of \<^verbatim>\<open>None\<close>. A job of three
  items, one of each kind. Stand-ins for the rendering of times and for the identifiers.
\<close>

definition demo_processor :: "nat process_function" where
  "demo_processor calls d bt =
     (case map_of d ''amount'' of
        None \<Rightarrow>
          (Inr \<lparr>success = Some False, error_result = Some ''Missing required field: amount''\<rparr>,
           Suc calls)
      | Some None \<Rightarrow> (Inl (Exception ''float() argument must be a string or a number''), Suc calls)
      | Some (Some a) \<Rightarrow> (Inr \<lparr>success = Some True, error_result = None\<rparr>, Suc calls))"

definition demo_job :: batch_job where
  "demo_job =
     BatchJob_init ''job-1'' 0 ''demo'' PAYMENT
       [BatchItem_init ''item-0'' [(''amount'', Some ''10.00'')],
        BatchItem_init ''item-1'' [],
        BatchItem_init ''item-2'' [(''amount'', None)]]
       '''' None"

definition demo_render :: "time \<Rightarrow> string" where
  "demo_render t = ''2024-01-01T00:00:00''"

definition demo_uuid :: "nat \<Rightarrow> string" where
  "demo_uuid j = replicate (Suc j) CHR ''u''"

definition demo_file :: csv_file where
  "demo_file =
     [[''identifier'', ''status_code'', ''amount'', ''data_card''],
      [''7'', ''200'', ''10.00'', ''4111'']]"

text \<open>
  Stand-ins for \<^verbatim>\<open>isoformat\<close> and \<^verbatim>\<open>fromisoformat\<close>: a sign and as many strokes as
  the time counts, and the reading of that text.
\<close>

definition demo_isoformat :: "time \<Rightarrow> string" where
  "demo_isoformat t =
     (if 0 \<le> t then CHR ''+'' # replicate (nat t) CHR ''I''
      else CHR ''-'' # replicate (nat (- t)) CHR ''I'')"

definition demo_fromisoformat :: "string \<Rightarrow> error + time" where
  "demo_fromisoformat s =
     (case s of
        [] \<Rightarrow> Inl (Exception ''Invalid isoformat string'')
      | c # strokes \<Rightarrow>
          if c = CHR ''+'' then Inr (int (length strokes))
          else if c = CHR ''-'' then Inr (- int (length strokes))
          else Inl (Exception ''Invalid isoformat string''))"

definition demo_repr :: "string \<Rightarrow> string" where
  "demo_repr s = [CHR 0x27] @ s @ [CHR 0x27]"


section \<open>Properties of the session authority\<close>

subsection \<open>Dictionaries as association lists\<close>

lemma find_update_same:
  "distinct (map fst al) \<Longrightarrow> find P al = Some (k, u) \<Longrightarrow> P (k, u')
     \<Longrightarrow> find P (AList.update k u' al) = Some (k, u')"
  by (induction al) (auto split: if_splits simp: rev_image_eqI)

lemma find_map_of:
  "distinct (map fst al) \<Longrightarrow> find P al = Some (k, u) \<Longrightarrow> map_of al k = Some u"
  by (induction al) (auto split: if_splits simp: rev_image_eqI)

subsection \<open>Duplicate users\<close>

lemma find_not_None: "(find P xs \<noteq> None) = (\<exists>x \<in> set xs. P x)"
  by (auto simp: find_None_iff)

lemma duplicate_check:
  "(get_user_by_username m uname \<noteq> None \<or> get_user_by_email m mail \<noteq> None) =
     (\<exists>(k, u) \<in> set (users m). lower (username u) = lower uname \<or> lower (email u) = lower mail)"
  unfolding get_user_by_username_def get_user_by_email_def find_not_None by auto

lemma lower_Alice: "lower ''Alice'' = ''alice''" "lower ''alice'' = ''alice''" 
   "lower ''a@x.com'' = ''a@x.com''" "lower ''other@x.com'' = ''other@x.com''"
  by code_simp+

text \<open>
  Claim C6. \<^verbatim>\<open>create_user\<close> returns no identifier exactly when the table holds a user
  whose name or whose e-mail address equals the new one without regard to case, and then
  it leaves the manager as it was. When there is no such user and the key derivation
  returns, it returns the fresh identifier and stores the new user under it.
\<close>

theorem create_user_duplicate:
  fixes m :: auth_manager
  defines "dup uname mail \<equiv> (\<exists>(k, u) \<in> set (users m). lower (username u) = lower uname \<or> lower (email u) = lower mail)"
  shows "((\<exists>m'. create_user hashf clk new_id new_salt m uname mail password rl fname lname perms = Inr (None, m')) \<longleftrightarrow> dup uname mail)
   \<and> (dup uname mail \<longrightarrow> create_user hashf clk new_id new_salt m uname mail password rl fname lname perms = Inr (None, m))
   \<and> (\<forall>h. \<not> dup uname mail \<and> hashf password new_salt = Inr h \<longrightarrow>
        create_user hashf clk new_id new_salt m uname mail password rl fname lname perms =
          Inr (Some new_id, m\<lparr>users := AList.update new_id (User_init new_id (clk 0) uname mail h new_salt rl fname lname perms) (users m)\<rparr>))"
proof (cases "dup uname mail")
  case True
  then have "get_user_by_username m uname \<noteq> None \<or> get_user_by_email m mail \<noteq> None"
    unfolding dup_def duplicate_check .
  then have "create_user hashf clk new_id new_salt m uname mail password rl fname lname perms = Inr (None, m)"
    by (simp add: create_user_def)
  with True show ?thesis by simp
next
  case False
  then have "\<not> (get_user_by_username m uname \<noteq> None \<or> get_user_by_email m mail \<noteq> None)"
    unfolding dup_def duplicate_check .
  then have "create_user hashf clk new_id new_salt m uname mail password rl fname lname perms =
     (case hashf password new_salt of
           Inl e \<Rightarrow> Inl e
         | Inr pw_hash \<Rightarrow>
             (let u = User_init new_id (clk 0) uname mail pw_hash new_salt rl fname lname perms
              in Inr (Some (id_user u), m\<lparr>users := AList.update (id_user u) u (users m)\<rparr>)))"
    by (simp add: create_user_def)
  with False show ?thesis
    by (auto simp: Let_def User_init_def split: sum.splits)
qed

text \<open>
  Creating alice and then Alice with another address: the first call stores the user, the
  second returns \<open>None\<close> and changes nothing.
\<close>

theorem create_user_duplicate_witness:
  "\<exists>m1. create_user demo_hash (\<lambda>k. 100) ''u1'' ''00'' AuthManager_init ''alice'' ''a@x.com'' ''pw'' VIEWER '''' '''' None = Inr (Some ''u1'', m1)
     \<and> create_user demo_hash (\<lambda>k. 200) ''u2'' ''11'' m1 ''Alice'' ''other@x.com'' ''pw2'' VIEWER '''' '''' None = Inr (None, m1)"
  using create_user_duplicate [of demo_hash "\<lambda>k. 100" "''u1''" "''00''" AuthManager_init "''alice''" "''a@x.com''" "''pw''" VIEWER "''''" "''''" None]
    create_user_duplicate [of demo_hash "\<lambda>k. 200" "''u2''" "''11''" 
       "AuthManager_init\<lparr>users := AList.update ''u1'' (User_init ''u1'' 100 ''alice'' ''a@x.com'' ''pw00'' ''00'' VIEWER '''' '''' None) (users AuthManager_init)\<rparr>"
       "''Alice''" "''other@x.com''" "''pw2''" VIEWER "''''" "''''" None]
  by (simp add: AuthManager_init_def demo_hash_def User_init_def lower_Alice)

subsection \<open>A session is valid right after it is issued\<close>

lemma demo_get: "get_user_by_username demo_manager ''Alice'' = Some (''u1'', demo_user)"
  by code_simp

text \<open>
  Claim C4. For a user that \<^verbatim>\<open>authenticate\<close> finds, active, not locked and given the
  right password, \<^verbatim>\<open>authenticate\<close> returns the session identifier it drew, and
  \<^verbatim>\<open>validate_session\<close> on that identifier, as long as its clock reading is not past the
  expiry the session was given, returns the identifier of that user.
\<close>

theorem authenticate_then_validate_session:
  assumes "get_user_by_username m uname = Some (k, u)"
    and "active u"
    and "\<not> fst (is_locked u clk 0)"
    and "hashf password (salt u) = Inr (password_hash u)"
    and "clk' 0 \<le> clk (snd (is_locked u clk 0) + 3) + session_timeout m"
  shows "\<exists>m'. authenticate hashf clk sid m uname password = Inr (Some sid, m')
            \<and> validate_session clk' m' sid = (Some (id_user u), m')"
  using assms
  by (cases "is_locked u clk 0")
     (auto simp: authenticate_def validate_session_def Let_def update_conv')

theorem authenticate_then_validate_session_witness:
  "\<exists>m'. authenticate demo_hash (\<lambda>k. 1000 + int k) ''s1'' demo_manager ''Alice'' ''pw''
          = Inr (Some ''s1'', m')
      \<and> validate_session (\<lambda>k. 2000) m' ''s1'' = (Some ''u1'', m')"
proof -
  have a: "active demo_user"
    by (simp add: demo_user_def User_init_def)
  have l: "\<not> fst (is_locked demo_user (\<lambda>k. 1000 + int k) 0)"
    by (simp add: is_locked_def demo_user_def User_init_def)
  have h: "demo_hash ''pw'' (salt demo_user) = Inr (password_hash demo_user)"
    by (simp add: demo_hash_def demo_user_def User_init_def)
  have t: "(\<lambda>k. 2000) 0
             \<le> (\<lambda>k. 1000 + int k) (snd (is_locked demo_user (\<lambda>k. 1000 + int k) 0) + 3)
                + session_timeout demo_manager"
    by (simp add: is_locked_def demo_user_def User_init_def demo_manager_def
        AuthManager_init_def hours_def)
  have i: "id_user demo_user = ''u1''"
    by (simp add: demo_user_def User_init_def)
  from authenticate_then_validate_session
         [where m = demo_manager and uname = "''Alice''" and k = "''u1''" and u = demo_user
            and clk = "\<lambda>k. 1000 + int k" and hashf = demo_hash and password = "''pw''"
            and clk' = "\<lambda>k. 2000" and sid = "''s1''"]
       demo_get a l h t i
  show ?thesis by simp
qed

subsection \<open>Lockout\<close>

lemma wrong_attempt_step:
  assumes "get_user_by_username m uname = Some (k, u)"
    and "wrong_password_attempt hashf clk m uname password"
  shows "authenticate hashf clk sid m uname password =
           Inr (None, m\<lparr>users := AList.update k (failed_attempt m clk u) (users m)\<rparr>)"
  using assms
  by (auto simp: authenticate_def wrong_password_attempt_def failed_attempt_def Let_def
      split: prod.splits sum.splits)

lemma get_after_update:
  assumes "distinct (map fst (users m))" "get_user_by_username m uname = Some (k, u)"
    and "username u' = username u"
  shows "get_user_by_username (m\<lparr>users := AList.update k u' (users m)\<rparr>) uname = Some (k, u')"
proof -
  let ?P = "\<lambda>(k, u). lower (username u) = lower uname"
  from assms(2) have f: "find ?P (users m) = Some (k, u)"
    by (simp add: get_user_by_username_def)
  then have "?P (k, u)" by (auto simp: find_Some_iff)
  with assms(3) have "?P (k, u')" by simp
  from find_update_same [of "users m" ?P k u u', OF assms(1) f this]
  show ?thesis by (simp add: get_user_by_username_def)
qed

lemma failed_attempt_fields:
  "username (failed_attempt m clk u) = username u"
  "salt (failed_attempt m clk u) = salt u"
  "password_hash (failed_attempt m clk u) = password_hash u"
  "active (failed_attempt m clk u) = active u"
  "failed_login_attempts (failed_attempt m clk u) = failed_login_attempts u + 1"
  by (simp_all add: failed_attempt_def Let_def)

lemma failed_attempt_locked_until:
  "locked_until (failed_attempt m clk u) =
     (if failed_login_attempts u + 1 \<ge> max_failed_attempts m
      then Some (clk (snd (is_locked u clk 0) + 1) + lockout_duration m)
      else locked_until u)"
  by (simp add: failed_attempt_def Let_def)

lemma wrong_attempts_append:
  "wrong_attempts hashf uname (xs @ ys) m =
     (case wrong_attempts hashf uname xs m of
        None \<Rightarrow> None
      | Some m1 \<Rightarrow> wrong_attempts hashf uname ys m1)"
proof (induction xs arbitrary: m)
  case Nil
  then show ?case by simp
next
  case (Cons a xs)
  obtain clk sid password where a: "a = (clk, sid, password)" by (cases a) auto
  show ?case
  proof (cases "wrong_password_attempt hashf clk m uname password")
    case False
    then show ?thesis by (simp add: a)
  next
    case True
    show ?thesis
    proof (cases "authenticate hashf clk sid m uname password")
      case (Inl e)
      with True show ?thesis by (simp add: a)
    next
      case (Inr r)
      obtain res m1 where r: "r = (res, m1)" by (cases r) auto
      show ?thesis
        using True Inr r Cons.IH [of m1] by (cases res) (simp_all add: a)
    qed
  qed
qed

lemma wrong_attempts_below_threshold:
  assumes "distinct (map fst (users m))"
    and "get_user_by_username m uname = Some (k, u)"
    and "wrong_attempts hashf uname xs m = Some m'"
    and "failed_login_attempts u + int (length xs) < max_failed_attempts m"
  shows "\<exists>u'. get_user_by_username m' uname = Some (k, u')
           \<and> failed_login_attempts u' = failed_login_attempts u + int (length xs)
           \<and> locked_until u' = locked_until u \<and> salt u' = salt u
           \<and> password_hash u' = password_hash u \<and> active u' = active u
           \<and> distinct (map fst (users m'))
           \<and> max_failed_attempts m' = max_failed_attempts m
           \<and> lockout_duration m' = lockout_duration m
           \<and> session_timeout m' = session_timeout m"
  using assms
proof (induction xs arbitrary: m u)
  case Nil
  then show ?case by simp
next
  case (Cons a xs)
  obtain clk sid password where a: "a = (clk, sid, password)" by (cases a) auto
  let ?u1 = "failed_attempt m clk u"
  let ?m1 = "m\<lparr>users := AList.update k ?u1 (users m)\<rparr>"
  from Cons.prems(3) a have w: "wrong_password_attempt hashf clk m uname password"
    by (auto split: if_splits)
  then have step: "authenticate hashf clk sid m uname password = Inr (None, ?m1)"
    using wrong_attempt_step [OF Cons.prems(2)] by simp
  with Cons.prems(3) a w have rest: "wrong_attempts hashf uname xs ?m1 = Some m'" by simp
  have g1: "get_user_by_username ?m1 uname = Some (k, ?u1)"
    using get_after_update [OF Cons.prems(1,2)] by (simp add: failed_attempt_fields)
  have d1: "distinct (map fst (users ?m1))"
    using Cons.prems(1) by (simp add: distinct_update)
  have below: "failed_login_attempts ?u1 + int (length xs) < max_failed_attempts ?m1"
    using Cons.prems(4) by (simp add: failed_attempt_fields)
  from Cons.IH [OF d1 g1 rest below] Cons.prems(4)
  show ?case by (auto simp: failed_attempt_fields failed_attempt_locked_until)
qed

text \<open>
  Claim C1. A user whose counter of failed attempts is zero receives as many consecutive
  wrong-password attempts as \<^verbatim>\<open>max_failed_attempts\<close> says. Before the last of them
  \<^verbatim>\<open>locked_until\<close> is as it was; the last one sets it to the clock reading of that
  assignment plus \<^verbatim>\<open>lockout_duration\<close>. From then on a call of \<^verbatim>\<open>authenticate\<close> whose
  reading in \<^verbatim>\<open>is_locked\<close> is before \<^verbatim>\<open>locked_until\<close> returns no session and changes
  nothing, whatever the password; a call with the right password whose reading is not
  before \<^verbatim>\<open>locked_until\<close> returns a session; and after \<^verbatim>\<open>unlock_user\<close> a call with the
  right password returns a session at any reading.
\<close>

theorem lockout_after_max_failed_attempts:
  assumes "distinct (map fst (users m))"
    and "get_user_by_username m uname = Some (k, u)"
    and "failed_login_attempts u = 0"
    and "max_failed_attempts m = int (length xs) + 1"
    and "wrong_attempts hashf uname (xs @ [(clk, sid, password)]) m = Some m'"
  shows "\<exists>m1 u1 u' until.
           wrong_attempts hashf uname xs m = Some m1
         \<and> get_user_by_username m1 uname = Some (k, u1)
         \<and> locked_until u1 = locked_until u
         \<and> get_user_by_username m' uname = Some (k, u')
         \<and> until = clk (snd (is_locked u clk 0) + 1) + lockout_duration m
         \<and> locked_until u' = Some until
         \<and> (\<forall>clk' sid' pw'. clk' 0 < until \<longrightarrow>
                authenticate hashf clk' sid' m' uname pw' = Inr (None, m'))
         \<and> (\<forall>clk' sid' pw'. hashf pw' (salt u) = Inr (password_hash u) \<and> \<not> clk' 0 < until \<longrightarrow>
                (\<exists>m''. authenticate hashf clk' sid' m' uname pw' = Inr (Some sid', m'')))
         \<and> (\<forall>clk0 clk' sid' pw'. hashf pw' (salt u) = Inr (password_hash u) \<longrightarrow>
                fst (unlock_user clk0 m' k) \<and>
                (\<exists>m''. authenticate hashf clk' sid' (snd (unlock_user clk0 m' k)) uname pw'
                         = Inr (Some sid', m'')))"
proof -
  from assms(5) obtain m1 where
    m1: "wrong_attempts hashf uname xs m = Some m1"
    and last: "wrong_attempts hashf uname [(clk, sid, password)] m1 = Some m'"
    by (auto simp: wrong_attempts_append split: option.splits)
  from wrong_attempts_below_threshold [OF assms(1,2) m1] assms(3,4)
  obtain u1 where g1: "get_user_by_username m1 uname = Some (k, u1)"
    and f1: "failed_login_attempts u1 = int (length xs)"
    and l1: "locked_until u1 = locked_until u"
    and same: "salt u1 = salt u" "password_hash u1 = password_hash u" "active u1 = active u"
    and d1: "distinct (map fst (users m1))"
    and cfg: "max_failed_attempts m1 = max_failed_attempts m"
             "lockout_duration m1 = lockout_duration m"
    by auto
  let ?u' = "failed_attempt m1 clk u1"
  from last have w: "wrong_password_attempt hashf clk m1 uname password"
    by (auto split: if_splits)
  with last wrong_attempt_step [OF g1 w, of sid]
  have m': "m' = m1\<lparr>users := AList.update k ?u' (users m1)\<rparr>" by simp
  have g': "get_user_by_username m' uname = Some (k, ?u')"
    unfolding m' using get_after_update [OF d1 g1] by (simp add: failed_attempt_fields)
  have il: "is_locked u1 clk 0 = is_locked u clk 0"
    by (simp add: is_locked_def l1)
  let ?until = "clk (snd (is_locked u clk 0) + 1) + lockout_duration m"
  have lu: "locked_until ?u' = Some ?until"
    using f1 assms(4) cfg by (simp add: failed_attempt_locked_until il)
  from w g1 have act: "active ?u'"
    by (simp add: wrong_password_attempt_def failed_attempt_fields)
  have cred: "salt ?u' = salt u" "password_hash ?u' = password_hash u"
    by (simp_all add: failed_attempt_fields same)
  have locked: "authenticate hashf clk' sid' m' uname pw' = Inr (None, m')"
    if "clk' 0 < ?until" for clk' sid' pw'
    using that g' lu act by (simp add: authenticate_def is_locked_def)
  have elapsed: "\<exists>m''. authenticate hashf clk' sid' m' uname pw' = Inr (Some sid', m'')"
    if "hashf pw' (salt u) = Inr (password_hash u)" "\<not> clk' 0 < ?until" for clk' sid' pw'
    using that g' lu act cred by (simp add: authenticate_def is_locked_def Let_def)
  have d': "distinct (map fst (users m'))"
    unfolding m' using d1 by (simp add: distinct_update)
  have mo: "get_user m' k = Some ?u'"
    using find_map_of [OF d'] g' by (simp add: get_user_by_username_def get_user_def)
  have unl: "fst (unlock_user clk0 m' k) \<and>
       (\<exists>m''. authenticate hashf clk' sid' (snd (unlock_user clk0 m' k)) uname pw'
                         = Inr (Some sid', m''))"
    if "hashf pw' (salt u) = Inr (password_hash u)" for clk0 clk' sid' pw'
  proof -
    let ?uu = "?u'\<lparr>locked_until := None, failed_login_attempts := 0,
                      updated_at_user := clk0 0\<rparr>"
    have un: "unlock_user clk0 m' k = (True, m'\<lparr>users := AList.update k ?uu (users m')\<rparr>)"
      using mo by (simp add: unlock_user_def)
    have "get_user_by_username (m'\<lparr>users := AList.update k ?uu (users m')\<rparr>) uname = Some (k, ?uu)"
      using get_after_update [OF d' g'] by simp
    then show ?thesis
      using that act cred unfolding un
      by (simp add: authenticate_def is_locked_def Let_def)
  qed
  show ?thesis
  proof (intro exI conjI)
    show "wrong_attempts hashf uname xs m = Some m1" by (rule m1)
    show "get_user_by_username m1 uname = Some (k, u1)" by (rule g1)
    show "locked_until u1 = locked_until u" by (rule l1)
    show "get_user_by_username m' uname = Some (k, ?u')" by (rule g')
    show "?until = ?until" by (rule refl)
    show "locked_until ?u' = Some ?until" by (rule lu)
    show "\<forall>clk' sid' pw'. clk' 0 < ?until \<longrightarrow>
            authenticate hashf clk' sid' m' uname pw' = Inr (None, m')"
      using locked by blast
    show "\<forall>clk' sid' pw'. hashf pw' (salt u) = Inr (password_hash u) \<and> \<not> clk' 0 < ?until \<longrightarrow>
            (\<exists>m''. authenticate hashf clk' sid' m' uname pw' = Inr (Some sid', m''))"
      using elapsed by blast
    show "\<forall>clk0 clk' sid' pw'. hashf pw' (salt u) = Inr (password_hash u) \<longrightarrow>
            fst (unlock_user clk0 m' k) \<and>
            (\<exists>m''. authenticate hashf clk' sid' (snd (unlock_user clk0 m' k)) uname pw'
                     = Inr (Some sid', m''))"
      using unl by blast
  qed
qed

lemma demo_run:
  "wrong_attempts demo_hash ''Alice''
     (demo_attempts @ [(\<lambda>k. 50 + int k, ''s5'', ''bad'')]) demo_manager \<noteq> None"
  by code_simp

text \<open>
  With the defaults (five attempts, fifteen minutes): the fifth wrong password is tried at
  reading 50 and the lock is set at reading 51, so it lasts until 900000051.
\<close>

theorem lockout_witness:
  "\<exists>m5. wrong_attempts demo_hash ''Alice'' (demo_attempts @ [(\<lambda>k. 50 + int k, ''s5'', ''bad'')]) demo_manager = Some m5
     \<and> authenticate demo_hash (\<lambda>k. 100) ''s6'' m5 ''Alice'' ''pw'' = Inr (None, m5)
     \<and> (\<exists>m6. authenticate demo_hash (\<lambda>k. 900000051) ''s6'' m5 ''Alice'' ''pw'' = Inr (Some ''s6'', m6))
     \<and> (\<exists>m6. authenticate demo_hash (\<lambda>k. 100) ''s6'' (snd (unlock_user (\<lambda>k. 60) m5 ''u1'')) ''Alice'' ''pw''
            = Inr (Some ''s6'', m6))"
proof -
  from demo_run obtain m5 where
    run: "wrong_attempts demo_hash ''Alice'' (demo_attempts @ [(\<lambda>k. 50 + int k, ''s5'', ''bad'')]) demo_manager = Some m5"
    by blast
  have d: "distinct (map fst (users demo_manager))"
    by (simp add: demo_manager_def)
  have f: "failed_login_attempts demo_user = 0"
    by (simp add: demo_user_def User_init_def)
  have mx: "max_failed_attempts demo_manager = int (length demo_attempts) + 1"
    by (simp add: demo_manager_def AuthManager_init_def demo_attempts_def)
  have il: "snd (is_locked demo_user (\<lambda>k. 50 + int k) 0) = 0"
    by (simp add: is_locked_def demo_user_def User_init_def)
  have ld: "lockout_duration demo_manager = 900000000"
    by (simp add: demo_manager_def AuthManager_init_def minutes_def)
  from lockout_after_max_failed_attempts [OF d demo_get f mx run]
  obtain u' where
    u': "get_user_by_username m5 ''Alice'' = Some (''u1'', u')"
    and locked: "\<forall>clk' sid' pw'. clk' 0 < 900000051 \<longrightarrow>
                authenticate demo_hash clk' sid' m5 ''Alice'' pw' = Inr (None, m5)"
    and elapsed: "\<forall>clk' sid' pw'. demo_hash pw' (salt demo_user) = Inr (password_hash demo_user) \<and> \<not> clk' 0 < 900000051 \<longrightarrow>
                (\<exists>m''. authenticate demo_hash clk' sid' m5 ''Alice'' pw' = Inr (Some sid', m''))"
    and unl: "\<forall>clk0 clk' sid' pw'. demo_hash pw' (salt demo_user) = Inr (password_hash demo_user) \<longrightarrow>
                fst (unlock_user clk0 m5 ''u1'') \<and>
                (\<exists>m''. authenticate demo_hash clk' sid' (snd (unlock_user clk0 m5 ''u1'')) ''Alice'' pw'
                         = Inr (Some sid', m''))"
    unfolding il ld by auto
  have ok: "demo_hash ''pw'' (salt demo_user) = Inr (password_hash demo_user)"
    by (simp add: demo_hash_def demo_user_def User_init_def)
  from locked have 1: "authenticate demo_hash (\<lambda>k. 100) ''s6'' m5 ''Alice'' ''pw'' = Inr (None, m5)"
    by simp
  from elapsed ok have 2: "\<exists>m6. authenticate demo_hash (\<lambda>k. 900000051) ''s6'' m5 ''Alice'' ''pw'' = Inr (Some ''s6'', m6)"
    by simp
  from unl ok have 3: "\<exists>m6. authenticate demo_hash (\<lambda>k. 100) ''s6'' (snd (unlock_user (\<lambda>k. 60) m5 ''u1'')) ''Alice'' ''pw''
            = Inr (Some ''s6'', m6)"
    by blast
  from run 1 2 3 show ?thesis by blast
qed

section \<open>Properties of the fraud rule engine\<close>

subsection \<open>The amount threshold\<close>

text \<open>
  Claim C9. An amount equal to the threshold does not trigger the amount rule; an amount
  above it by any positive increment, one cent for one, triggers it with risk Medium.
\<close>

theorem amount_threshold_boundary:
  "(amount tx = Some threshold \<longrightarrow>
      fst (evaluate (AmountThresholdRule threshold) clk i tx) = Inr (False, LOW, Text ''''))
   \<and> (\<forall>d > 0. amount tx = Some (threshold + d) \<longrightarrow>
        fst (evaluate (AmountThresholdRule threshold) clk i tx)
          = Inr (True, MEDIUM, AmountExceedsThreshold (threshold + d) threshold))
   \<and> (amount tx = Some (threshold + 1 / 100) \<longrightarrow>
        fst (evaluate (AmountThresholdRule threshold) clk i tx)
          = Inr (True, MEDIUM, AmountExceedsThreshold (threshold + 1 / 100) threshold))"
  by simp

theorem amount_threshold_boundary_witness:
  "fst (evaluate (AmountThresholdRule 1000) (\<lambda>k. 0) 0 ((card_transaction ''c'' 0)\<lparr>amount := Some 1000\<rparr>))
      = Inr (False, LOW, Text '''')
   \<and> fst (evaluate (AmountThresholdRule 1000) (\<lambda>k. 0) 0 ((card_transaction ''c'' 0)\<lparr>amount := Some (1000 + 1 / 100)\<rparr>))
      = Inr (True, MEDIUM, AmountExceedsThreshold (1000 + 1 / 100) 1000)"
  using amount_threshold_boundary [of "(card_transaction ''c'' 0)\<lparr>amount := Some 1000\<rparr>" 1000 "\<lambda>k. 0" 0]
    amount_threshold_boundary [of "(card_transaction ''c'' 0)\<lparr>amount := Some (1000 + 1 / 100)\<rparr>" 1000 "\<lambda>k. 0" 0]
  by simp

subsection \<open>The velocity rule\<close>

lemma recent_since_filter:
  "recent_since cutoff xs = Inr kept \<Longrightarrow>
     kept = filter (\<lambda>t. datetime_ge t cutoff = Inr True) xs"
  by (induction xs arbitrary: kept) (auto split: sum.splits if_splits)

lemma datetime_ge_naive: "datetime_ge (naive s) (DateTime c fld None) = Inr (s \<ge> c)"
  by (simp add: datetime_ge_def naive_def)

lemma recent_since_naive:
  "\<forall>s \<in> set xs. \<exists>u. s = naive u \<Longrightarrow>
     recent_since (DateTime c fld None) xs = Inr (filter (\<lambda>s. wall s \<ge> c) xs)"
  by (induction xs) (auto simp: datetime_ge_naive, auto simp: naive_def)

lemma history_of_update:
  "history_of (VelocityCheckRule mx w (AList.update c l h)) c' =
     (if c' = c then l else history_of (VelocityCheckRule mx w h) c')"
  by (simp add: update_conv')

lemma velocity_returns:
  assumes "card_id tx = Some c" "c \<noteq> []"
    and "datetime_sub (case timestamp tx of None \<Rightarrow> DateTime (clk i) False None | Some t \<Rightarrow> t) w
           = Inr cutoff"
    and "recent_since cutoff
           (history_of (VelocityCheckRule mx w h) c
              @ [case timestamp tx of None \<Rightarrow> DateTime (clk i) False None | Some t \<Rightarrow> t])
           = Inr kept"
  shows "evaluate (VelocityCheckRule mx w h) clk i tx =
           (Inr (if int (length kept) > mx then (True, HIGH, VelocityCount (length kept) w)
                 else (False, LOW, Text '''')),
            VelocityCheckRule mx w (AList.update c kept h), Suc i)"
  using assms by (simp add: Let_def)

lemma velocity_raises:
  assumes "card_id tx = Some c" "c \<noteq> []"
    and "datetime_sub (case timestamp tx of None \<Rightarrow> DateTime (clk i) False None | Some t \<Rightarrow> t) w
           = Inl e
         \<or> (\<exists>cutoff.
               datetime_sub (case timestamp tx of None \<Rightarrow> DateTime (clk i) False None | Some t \<Rightarrow> t) w
                 = Inr cutoff
             \<and> recent_since cutoff
                 (history_of (VelocityCheckRule mx w h) c
                    @ [case timestamp tx of None \<Rightarrow> DateTime (clk i) False None | Some t \<Rightarrow> t])
                 = Inl e)"
  shows "evaluate (VelocityCheckRule mx w h) clk i tx =
           (Inl e,
            VelocityCheckRule mx w
              (AList.update c
                 (history_of (VelocityCheckRule mx w h) c
                    @ [case timestamp tx of None \<Rightarrow> DateTime (clk i) False None | Some t \<Rightarrow> t])
                 h),
            Suc i)"
  using assms by (auto simp: Let_def)

text \<open>
  Claim C2, as the code has it. An evaluation of the velocity rule on a transaction with
  an entity key appends the timestamp of the transaction to the history of that entity
  and then computes the cutoff, the timestamp minus the window. When that is a datetime
  and every timestamp of the history can be compared with it, the rule keeps the
  timestamps not before the cutoff, leaves the other entities alone, and triggers, with
  risk High, exactly when more timestamps are kept than the maximum. When the cutoff
  would lie before \<^verbatim>\<open>datetime.min\<close>, or the history mixes naive and aware timestamps, the
  rule raises, and the history keeps the appended timestamp and everything it had. For a
  naive timestamp at least a window after \<^verbatim>\<open>datetime.min\<close> and a history of naive
  timestamps nothing raises, and the timestamps kept are those whose wall-clock value
  is not before the cutoff. With a window of five minutes and a maximum of three, on an
  entity with no history and with naive timestamps at least five minutes after
  \<^verbatim>\<open>datetime.min\<close>: of four transactions no two of which are more than four minutes apart,
  the first three do not trigger and the fourth triggers High; a fifth transaction ten
  minutes after the first then does not trigger, and the history it leaves holds its own
  timestamp only, not that of the first.
\<close>

theorem velocity_rule_sliding_window:
  "(\<forall>c ts. card_id tx = Some c \<and> c \<noteq> []
       \<and> ts = (case timestamp tx of None \<Rightarrow> DateTime (clk i) False None | Some t \<Rightarrow> t) \<longrightarrow>
      (\<forall>cutoff kept.
          datetime_sub ts w = Inr cutoff
          \<and> recent_since cutoff (history_of (VelocityCheckRule mx w h) c @ [ts]) = Inr kept \<longrightarrow>
          (\<exists>r'. evaluate (VelocityCheckRule mx w h) clk i tx
                  = (Inr (if int (length kept) > mx
                          then (True, HIGH, VelocityCount (length kept) w)
                          else (False, LOW, Text '''')),
                     r', Suc i)
             \<and> history_of r' c = kept
             \<and> kept = filter (\<lambda>t. datetime_ge t cutoff = Inr True)
                        (history_of (VelocityCheckRule mx w h) c @ [ts])
             \<and> (\<forall>c'. c' \<noteq> c \<longrightarrow> history_of r' c' = history_of (VelocityCheckRule mx w h) c')))
      \<and> (\<forall>e. datetime_sub ts w = Inl e
               \<or> (\<exists>cutoff. datetime_sub ts w = Inr cutoff
                    \<and> recent_since cutoff (history_of (VelocityCheckRule mx w h) c @ [ts]) = Inl e)
             \<longrightarrow>
          (\<exists>r'. evaluate (VelocityCheckRule mx w h) clk i tx = (Inl e, r', Suc i)
             \<and> history_of r' c = history_of (VelocityCheckRule mx w h) c @ [ts]
             \<and> (\<forall>c'. c' \<noteq> c \<longrightarrow> history_of r' c' = history_of (VelocityCheckRule mx w h) c')))
      \<and> (\<forall>t. ts = naive t \<and> datetime_min \<le> t - w \<and> t - w \<le> datetime_max
              \<and> (\<forall>s \<in> set (history_of (VelocityCheckRule mx w h) c). \<exists>u. s = naive u) \<longrightarrow>
            datetime_sub ts w = Inr (naive (t - w))
          \<and> recent_since (naive (t - w)) (history_of (VelocityCheckRule mx w h) c @ [ts])
              = Inr (filter (\<lambda>s. wall s \<ge> t - w)
                       (history_of (VelocityCheckRule mx w h) c @ [ts]))))
   \<and> (\<forall>c t1 t2 t3 t4 k1 k2 k3 k4 k5.
        c \<noteq> [] \<and> history_of (VelocityCheckRule 3 (minutes 5) h) c = []
        \<and> (\<forall>s \<in> {t1, t2, t3, t4}. \<forall>t \<in> {t1, t2, t3, t4}. s - t \<le> minutes 4)
        \<and> (\<forall>t \<in> {t1, t2, t3, t4}. datetime_min + minutes 5 \<le> t \<and> t \<le> datetime_max)
        \<and> t1 + minutes 10 \<le> datetime_max \<longrightarrow>
        (\<exists>r4 r5.
           evaluate_each (VelocityCheckRule 3 (minutes 5) h)
             [(k1, card_transaction c t1), (k2, card_transaction c t2),
              (k3, card_transaction c t3), (k4, card_transaction c t4)]
             = ([Inr (False, LOW, Text ''''), Inr (False, LOW, Text ''''),
                 Inr (False, LOW, Text ''''),
                 Inr (True, HIGH, VelocityCount 4 (minutes 5))], r4)
         \<and> evaluate r4 k5 0 (card_transaction c (t1 + minutes 10))
             = (Inr (False, LOW, Text ''''), r5, 1)
         \<and> history_of r5 c = [naive (t1 + minutes 10)]
         \<and> naive t1 \<notin> set (history_of r5 c)))"
proof (intro conjI allI impI)
  fix c ts cutoff kept
  assume a: "card_id tx = Some c \<and> c \<noteq> []
       \<and> ts = (case timestamp tx of None \<Rightarrow> DateTime (clk i) False None | Some t \<Rightarrow> t)"
    and b: "datetime_sub ts w = Inr cutoff
          \<and> recent_since cutoff (history_of (VelocityCheckRule mx w h) c @ [ts]) = Inr kept"
  from a have k: "card_id tx = Some c" "c \<noteq> []"
    and ts: "ts = (case timestamp tx of None \<Rightarrow> DateTime (clk i) False None | Some t \<Rightarrow> t)"
    by simp_all
  from b have sub: "datetime_sub ts w = Inr cutoff"
    and rs: "recent_since cutoff (history_of (VelocityCheckRule mx w h) c @ [ts]) = Inr kept"
    by simp_all
  have ev: "evaluate (VelocityCheckRule mx w h) clk i tx =
           (Inr (if int (length kept) > mx then (True, HIGH, VelocityCount (length kept) w)
                 else (False, LOW, Text '''')),
            VelocityCheckRule mx w (AList.update c kept h), Suc i)"
    by (rule velocity_returns [where clk = clk and i = i, OF k sub [unfolded ts] rs [unfolded ts]])
  have f: "kept = filter (\<lambda>t. datetime_ge t cutoff = Inr True)
                        (history_of (VelocityCheckRule mx w h) c @ [ts])"
    by (rule recent_since_filter [OF rs])
  show "\<exists>r'. evaluate (VelocityCheckRule mx w h) clk i tx
                  = (Inr (if int (length kept) > mx
                          then (True, HIGH, VelocityCount (length kept) w)
                          else (False, LOW, Text '''')),
                     r', Suc i)
             \<and> history_of r' c = kept
             \<and> kept = filter (\<lambda>t. datetime_ge t cutoff = Inr True)
                        (history_of (VelocityCheckRule mx w h) c @ [ts])
             \<and> (\<forall>c'. c' \<noteq> c \<longrightarrow> history_of r' c' = history_of (VelocityCheckRule mx w h) c')"
    using f by (intro exI [of _ "VelocityCheckRule mx w (AList.update c kept h)"])
               (simp only: ev history_of_update, simp)
next
  fix c ts e
  assume a: "card_id tx = Some c \<and> c \<noteq> []
       \<and> ts = (case timestamp tx of None \<Rightarrow> DateTime (clk i) False None | Some t \<Rightarrow> t)"
    and b: "datetime_sub ts w = Inl e
               \<or> (\<exists>cutoff. datetime_sub ts w = Inr cutoff
                    \<and> recent_since cutoff (history_of (VelocityCheckRule mx w h) c @ [ts]) = Inl e)"
  from a have k: "card_id tx = Some c" "c \<noteq> []"
    and ts: "ts = (case timestamp tx of None \<Rightarrow> DateTime (clk i) False None | Some t \<Rightarrow> t)"
    by simp_all
  have ev: "evaluate (VelocityCheckRule mx w h) clk i tx =
           (Inl e,
            VelocityCheckRule mx w
              (AList.update c (history_of (VelocityCheckRule mx w h) c @ [ts]) h),
            Suc i)"
    unfolding ts by (rule velocity_raises [where clk = clk and i = i, OF k b [unfolded ts]])
  show "\<exists>r'. evaluate (VelocityCheckRule mx w h) clk i tx = (Inl e, r', Suc i)
             \<and> history_of r' c = history_of (VelocityCheckRule mx w h) c @ [ts]
             \<and> (\<forall>c'. c' \<noteq> c \<longrightarrow> history_of r' c' = history_of (VelocityCheckRule mx w h) c')"
    by (intro exI [of _ "VelocityCheckRule mx w
              (AList.update c (history_of (VelocityCheckRule mx w h) c @ [ts]) h)"])
       (simp only: ev history_of_update, simp)
next
  fix c ts t
  assume b: "ts = naive t \<and> datetime_min \<le> t - w \<and> t - w \<le> datetime_max
              \<and> (\<forall>s \<in> set (history_of (VelocityCheckRule mx w h) c). \<exists>u. s = naive u)"
  then show "datetime_sub ts w = Inr (naive (t - w))"
    by (simp add: naive_def)
next
  fix c ts t
  assume b: "ts = naive t \<and> datetime_min \<le> t - w \<and> t - w \<le> datetime_max
              \<and> (\<forall>s \<in> set (history_of (VelocityCheckRule mx w h) c). \<exists>u. s = naive u)"
  then have "\<forall>s \<in> set (history_of (VelocityCheckRule mx w h) c @ [ts]). \<exists>u. s = naive u"
    by auto
  from recent_since_naive [OF this, of "t - w" False]
  show "recent_since (naive (t - w)) (history_of (VelocityCheckRule mx w h) c @ [ts])
              = Inr (filter (\<lambda>s. wall s \<ge> t - w)
                       (history_of (VelocityCheckRule mx w h) c @ [ts]))"
    by (simp add: naive_def)
next
  fix c :: string and t1 t2 t3 t4 :: time and k1 k2 k3 k4 k5 :: clock
  assume a: "c \<noteq> [] \<and> history_of (VelocityCheckRule 3 (minutes 5) h) c = []
        \<and> (\<forall>s \<in> {t1, t2, t3, t4}. \<forall>t \<in> {t1, t2, t3, t4}. s - t \<le> minutes 4)
        \<and> (\<forall>t \<in> {t1, t2, t3, t4}. datetime_min + minutes 5 \<le> t \<and> t \<le> datetime_max)
        \<and> t1 + minutes 10 \<le> datetime_max"
  then have c: "c \<noteq> []" and h0: "(case map_of h c of None \<Rightarrow> [] | Some l \<Rightarrow> l) = []"
    by simp_all
  from a have d: "t1 - t2 \<le> 240000000" "t1 - t3 \<le> 240000000" "t1 - t4 \<le> 240000000"
    "t2 - t1 \<le> 240000000" "t2 - t3 \<le> 240000000" "t2 - t4 \<le> 240000000"
    "t3 - t1 \<le> 240000000" "t3 - t2 \<le> 240000000" "t3 - t4 \<le> 240000000"
    "t4 - t1 \<le> 240000000" "t4 - t2 \<le> 240000000" "t4 - t3 \<le> 240000000"
    by (simp_all add: minutes_def)
  from a have r: "datetime_min \<le> t1 - 300000000" "t1 - 300000000 \<le> datetime_max"
    "datetime_min \<le> t2 - 300000000" "t2 - 300000000 \<le> datetime_max"
    "datetime_min \<le> t3 - 300000000" "t3 - 300000000 \<le> datetime_max"
    "datetime_min \<le> t4 - 300000000" "t4 - 300000000 \<le> datetime_max"
    "datetime_min \<le> t1 + 300000000" "t1 + 300000000 \<le> datetime_max"
    by (simp_all add: minutes_def)
  show "\<exists>r4 r5.
           evaluate_each (VelocityCheckRule 3 (minutes 5) h)
             [(k1, card_transaction c t1), (k2, card_transaction c t2),
              (k3, card_transaction c t3), (k4, card_transaction c t4)]
             = ([Inr (False, LOW, Text ''''), Inr (False, LOW, Text ''''),
                 Inr (False, LOW, Text ''''),
                 Inr (True, HIGH, VelocityCount 4 (minutes 5))], r4)
         \<and> evaluate r4 k5 0 (card_transaction c (t1 + minutes 10))
             = (Inr (False, LOW, Text ''''), r5, 1)
         \<and> history_of r5 c = [naive (t1 + minutes 10)]
         \<and> naive t1 \<notin> set (history_of r5 c)"
    using c h0 d r
    by (simp add: card_transaction_def naive_def datetime_ge_def Let_def update_conv' minutes_def)
qed

theorem velocity_rule_sliding_window_witness:
  "\<exists>r4 r5 r'.
     evaluate_each (VelocityCheckRule 3 (minutes 5) [])
       [(\<lambda>k. 0, card_transaction ''card-1'' 0),
        (\<lambda>k. 0, card_transaction ''card-1'' (minutes 1)),
        (\<lambda>k. 0, card_transaction ''card-1'' (minutes 2)),
        (\<lambda>k. 0, card_transaction ''card-1'' (minutes 3))]
       = ([Inr (False, LOW, Text ''''), Inr (False, LOW, Text ''''),
           Inr (False, LOW, Text ''''),
           Inr (True, HIGH, VelocityCount 4 (minutes 5))], r4)
     \<and> history_of r4 ''card-1'' = [naive 0, naive (minutes 1), naive (minutes 2), naive (minutes 3)]
     \<and> evaluate r4 (\<lambda>k. 0) 0 (card_transaction ''card-1'' (minutes 10))
         = (Inr (False, LOW, Text ''''), r5, 1)
     \<and> history_of r5 ''card-1'' = [naive (minutes 10)]
     \<and> evaluate (VelocityCheckRule 3 (minutes 5) []) (\<lambda>k. 0) 0
           (card_transaction ''card-1'' datetime_min)
         = (Inl (Exception ''date value out of range''), r', 1)
     \<and> history_of r' ''card-1'' = [naive datetime_min]"
proof -
  let ?txs = "[(\<lambda>k. 0, card_transaction ''card-1'' 0),
        (\<lambda>k. 0, card_transaction ''card-1'' (minutes 1)),
        (\<lambda>k. 0, card_transaction ''card-1'' (minutes 2)),
        (\<lambda>k. 0, card_transaction ''card-1'' (minutes 3))] :: (clock \<times> transaction) list"
  have hyp: "''card-1'' \<noteq> [] \<and> history_of (VelocityCheckRule 3 (minutes 5) []) ''card-1'' = []
        \<and> (\<forall>s \<in> {0, minutes 1, minutes 2, minutes 3}.
             \<forall>t \<in> {0, minutes 1, minutes 2, minutes 3}. s - t \<le> minutes 4)
        \<and> (\<forall>t \<in> {0, minutes 1, minutes 2, minutes 3}.
             datetime_min + minutes 5 \<le> t \<and> t \<le> datetime_max)
        \<and> 0 + minutes 10 \<le> datetime_max"
    by (simp add: minutes_def datetime_min_def datetime_max_def)
  from velocity_rule_sliding_window
         [THEN conjunct2, rule_format,
          of "''card-1''" "[]" 0 "minutes 1" "minutes 2" "minutes 3"
             "\<lambda>k. 0" "\<lambda>k. 0" "\<lambda>k. 0" "\<lambda>k. 0" "\<lambda>k. 0", OF hyp]
  obtain r4 r5 where
    run: "evaluate_each (VelocityCheckRule 3 (minutes 5) []) ?txs
            = ([Inr (False, LOW, Text ''''), Inr (False, LOW, Text ''''),
                Inr (False, LOW, Text ''''),
                Inr (True, HIGH, VelocityCount 4 (minutes 5))], r4)"
    and fifth: "evaluate r4 (\<lambda>k. 0) 0 (card_transaction ''card-1'' (0 + minutes 10))
            = (Inr (False, LOW, Text ''''), r5, 1)"
    and kept: "history_of r5 ''card-1'' = [naive (0 + minutes 10)]"
    by blast
  have "snd (evaluate_each (VelocityCheckRule 3 (minutes 5) []) ?txs)
          = VelocityCheckRule 3 (minutes 5)
              [(''card-1'', [naive 0, naive (minutes 1), naive (minutes 2), naive (minutes 3)])]"
    by (simp add: card_transaction_def naive_def datetime_ge_def minutes_def
        datetime_min_def datetime_max_def)
  with run have h4: "history_of r4 ''card-1''
                       = [naive 0, naive (minutes 1), naive (minutes 2), naive (minutes 3)]"
    by simp
  let ?tx = "card_transaction ''card-1'' datetime_min"
  have early: "card_id ?tx = Some ''card-1'' \<and> ''card-1'' \<noteq> []
       \<and> naive datetime_min
           = (case timestamp ?tx of None \<Rightarrow> DateTime ((\<lambda>k. 0) 0) False None | Some t \<Rightarrow> t)"
    by (simp add: card_transaction_def)
  have over: "datetime_sub (naive datetime_min) (minutes 5) = Inl (Exception ''date value out of range'')
               \<or> (\<exists>cutoff. datetime_sub (naive datetime_min) (minutes 5) = Inr cutoff
                    \<and> recent_since cutoff
                         (history_of (VelocityCheckRule 3 (minutes 5) []) ''card-1''
                            @ [naive datetime_min])
                       = Inl (Exception ''date value out of range''))"
    by (simp add: naive_def minutes_def)
  from velocity_rule_sliding_window
         [where tx = ?tx and clk = "\<lambda>k. 0" and i = 0 and w = "minutes 5" and mx = 3 and h = "[]",
          THEN conjunct1, rule_format, OF early, THEN conjunct2, THEN conjunct1, rule_format,
          OF over]
  obtain r' where
    raised: "evaluate (VelocityCheckRule 3 (minutes 5) []) (\<lambda>k. 0) 0 ?tx
               = (Inl (Exception ''date value out of range''), r', Suc 0)"
    and left: "history_of r' ''card-1''
                 = history_of (VelocityCheckRule 3 (minutes 5) []) ''card-1'' @ [naive datetime_min]"
    by blast
  from run h4 fifth kept raised left show ?thesis
    by simp
qed

text \<open>
  The claim as it is stated, for every evaluation, fails on a transaction whose timestamp
  is \<^verbatim>\<open>datetime.min\<close>: with a maximum of zero the one timestamp kept exceeds it, and the
  rule raises instead of triggering. It fails again on an aware timestamp after a naive
  one: the rule raises and prunes nothing.
\<close>

theorem velocity_rule_counterexample:
  "evaluate (VelocityCheckRule 0 (minutes 5) []) (\<lambda>k. 0) 0 (card_transaction ''card-1'' datetime_min)
     = (Inl (Exception ''date value out of range''),
        VelocityCheckRule 0 (minutes 5) [(''card-1'', [naive datetime_min])], 1)
   \<and> evaluate_each (VelocityCheckRule 0 (minutes 5) [])
        [(\<lambda>k. 0, card_transaction ''card-1'' 0),
         (\<lambda>k. 0, (card_transaction ''card-1'' 0)\<lparr>timestamp := Some (DateTime (minutes 10) False (Some utc))\<rparr>)]
     = ([Inr (True, HIGH, VelocityCount 1 (minutes 5)),
         Inl (Exception ''can't compare offset-naive and offset-aware datetimes'')],
        VelocityCheckRule 0 (minutes 5)
          [(''card-1'', [naive 0, DateTime (minutes 10) False (Some utc)])])"
  by (simp add: card_transaction_def naive_def datetime_ge_def Let_def minutes_def
      datetime_min_def datetime_max_def utc_def)

subsection \<open>Evaluation of a transaction\<close>














section \<open>Properties of the batch execution engine\<close>

subsection \<open>The loop over the items\<close>

lemma count_outcome_fields:
  "successful_items (snd (count_outcome res k item job))
     = successful_items job + (if succeeded res then 1 else 0)"
  "failed_items (snd (count_outcome res k item job))
     = failed_items job + (if succeeded res then 0 else 1)"
  "processed_items (snd (count_outcome res k item job)) = processed_items job"
  "total_items (snd (count_outcome res k item job)) = total_items job"
  "batch_type (snd (count_outcome res k item job)) = batch_type job"
  "length (items (snd (count_outcome res k item job))) = length (items job)"
  by (auto simp: count_outcome_def succeeded_def Let_def split: sum.splits error.splits)

lemma stamp_item_fields:
  "successful_items (stamp_item clk i k item job) = successful_items job"
  "failed_items (stamp_item clk i k item job) = failed_items job"
  "processed_items (stamp_item clk i k item job) = processed_items job + 1"
  "total_items (stamp_item clk i k item job) = total_items job"
  "batch_type (stamp_item clk i k item job) = batch_type job"
  "length (items (stamp_item clk i k item job)) = length (items job)"
  by (simp_all add: stamp_item_def)

lemma process_items_counters:
  "process_items pf clk i ps xs k job = (j, ps', i') \<Longrightarrow>
     successful_items j
       = successful_items job + int (length (filter id (item_outcomes pf ps (batch_type job) xs)))
     \<and> failed_items j
       = failed_items job + int (length (filter Not (item_outcomes pf ps (batch_type job) xs)))
     \<and> processed_items j = processed_items job + int (length xs)
     \<and> total_items j = total_items job
     \<and> batch_type j = batch_type job
     \<and> length (items j) = length (items job)
     \<and> i' = i + 2 * length xs"
proof (induction xs arbitrary: i ps k job)
  case Nil
  then show ?case by simp
next
  case (Cons item rest)
  obtain res ps1 where pf: "pf ps (data item) (batch_type job) = (res, ps1)"
    by (cases "pf ps (data item) (batch_type job)") auto
  obtain item1 job1 where co: "count_outcome res k item job = (item1, job1)"
    by (cases "count_outcome res k item job") auto
  then have job1: "job1 = snd (count_outcome res k item job)" by simp
  from Cons.prems pf co
  have "process_items pf clk (i + 2) ps1 rest (Suc k) (stamp_item clk i k item1 job1)
          = (j, ps', i')"
    by simp
  from Cons.IH [OF this] pf show ?case
    by (simp add: stamp_item_fields job1 count_outcome_fields)
qed

lemma process_items_append:
  "process_items pf clk i ps (xs @ ys) k job =
     (case process_items pf clk i ps xs k job of
        (j, ps', i') \<Rightarrow> process_items pf clk i' ps' ys (k + length xs) j)"
proof (induction xs arbitrary: i ps k job)
  case Nil
  show ?case by simp
next
  case (Cons item rest)
  show ?case
    by (simp add: Cons.IH split: prod.splits)
qed

lemma length_item_outcomes: "length (item_outcomes pf ps bt xs) = length xs"
  by (induction xs arbitrary: ps) (auto split: prod.splits)

lemma process_batch_final:
  assumes "processed_items job = 0" "successful_items job = 0" "failed_items job = 0"
    and "total_items job = int (length (items job))"
  shows "let n = length (items job);
             k = length (filter Not (item_outcomes pf ps (batch_type job) (items job)));
             j = fst (process_batch (Some pf) ps clk job)
         in processed_items j = int n \<and> failed_items j = int k
            \<and> successful_items j = int n - int k \<and> total_items j = int n
            \<and> status j = (if k = 0 then COMPLETED else if k = n then FAILED
                           else PARTIALLY_COMPLETED)
            \<and> (0 < k \<and> k < n \<longrightarrow> status j = PARTIALLY_COMPLETED)
            \<and> completed_at j = Some (clk (2 + 2 * n))"
proof -
  let ?job1 = "job\<lparr>status := PROCESSING, started_at := Some (clk 0), updated_at_job := clk 1\<rparr>"
  let ?os = "item_outcomes pf ps (batch_type job) (items job)"
  obtain j2 ps' i where run: "process_items pf clk 2 ps (items ?job1) 0 ?job1 = (j2, ps', i)"
    by (cases "process_items pf clk 2 ps (items ?job1) 0 ?job1") auto
  from process_items_counters [OF run] assms
  have c: "successful_items j2 = int (length (filter id ?os))"
    "failed_items j2 = int (length (filter Not ?os))"
    "processed_items j2 = int (length (items job))"
    "total_items j2 = int (length (items job))"
    "i = 2 + 2 * length (items job)"
    by simp_all
  have len: "length ?os = length (items job)"
    by (rule length_item_outcomes)
  have "length (filter id ?os) + length (filter Not ?os) = length ?os"
    using sum_length_filter_compl [of id ?os] by (simp add: comp_def)
  with len have split: "length (filter id ?os) = length (items job) - length (filter Not ?os)"
    "length (filter Not ?os) \<le> length (items job)"
    by simp_all
  have j: "fst (process_batch (Some pf) ps clk job) =
      j2\<lparr>status := (if failed_items j2 = 0 then COMPLETED
                      else if successful_items j2 = 0 then FAILED else PARTIALLY_COMPLETED),
         completed_at := Some (clk i), updated_at_job := clk (i + 1)\<rparr>"
    using run by (simp add: process_batch_def Let_def)
  show ?thesis
    unfolding Let_def j using c split by (auto simp: of_nat_diff)
qed

lemma demo_fresh:
  "processed_items demo_job = 0" "successful_items demo_job = 0" "failed_items demo_job = 0"
  "total_items demo_job = int (length (items demo_job))"
  by (simp_all add: demo_job_def BatchJob_init_def)




subsection \<open>The counters between two items\<close>

lemma job_after_counters:
  assumes "processed_items job = 0" "successful_items job = 0" "failed_items job = 0"
    and "n \<le> length (items job)"
  shows "processed_items (job_after pf ps clk job n) = int n"
    and "processed_items (job_after pf ps clk job n)
           = successful_items (job_after pf ps clk job n) + failed_items (job_after pf ps clk job n)"
    and "total_items (job_after pf ps clk job n) = total_items job"
proof -
  let ?xs = "take n (items job)"
  let ?os = "item_outcomes pf ps (batch_type (started_job clk job)) ?xs"
  obtain j ps' i where
    run: "process_items pf clk 2 ps ?xs 0 (started_job clk job) = (j, ps', i)"
    by (cases "process_items pf clk 2 ps ?xs 0 (started_job clk job)") auto
  then have ja: "job_after pf ps clk job n = j"
    by (simp add: job_after_def)
  from process_items_counters [OF run] assms
  have c: "successful_items j = int (length (filter id ?os))"
    "failed_items j = int (length (filter Not ?os))"
    "processed_items j = int n"
    "total_items j = total_items job"
    by (simp_all add: started_job_def min_def)
  have "length (filter id ?os) + length (filter Not ?os) = length ?os"
    using sum_length_filter_compl [of id ?os] by (simp add: comp_def)
  with assms(4) have "length (filter id ?os) + length (filter Not ?os) = n"
    by (simp add: length_item_outcomes min_def)
  then have "int (length (filter id ?os)) + int (length (filter Not ?os)) = int n"
    by linarith
  with c show "processed_items (job_after pf ps clk job n) = int n"
    and "processed_items (job_after pf ps clk job n)
           = successful_items (job_after pf ps clk job n) + failed_items (job_after pf ps clk job n)"
    and "total_items (job_after pf ps clk job n) = total_items job"
    unfolding ja by simp_all
qed

lemma job_within_counters:
  assumes "processed_items job = 0" "successful_items job = 0" "failed_items job = 0"
    and "n < length (items job)"
  shows "processed_items (job_within pf ps clk job n) = int n"
    and "successful_items (job_within pf ps clk job n) + failed_items (job_within pf ps clk job n)
           = int n + 1"
    and "total_items (job_within pf ps clk job n) = total_items job"
proof -
  obtain jn psn i_n where
    run: "process_items pf clk 2 ps (take n (items job)) 0 (started_job clk job) = (jn, psn, i_n)"
    by (cases "process_items pf clk 2 ps (take n (items job)) 0 (started_job clk job)") auto
  then have jn: "jn = job_after pf ps clk job n"
    by (simp add: job_after_def)
  from assms(4) obtain item rest where d: "drop n (items job) = item # rest"
    by (cases "drop n (items job)") auto
  obtain res ps' where pf: "pf psn (data item) (batch_type jn) = (res, ps')"
    by (cases "pf psn (data item) (batch_type jn)") auto
  have w: "job_within pf ps clk job n = snd (count_outcome res n item jn)"
    by (simp add: job_within_def run d pf)
  from assms(4) have n: "n \<le> length (items job)" by simp
  note a = job_after_counters [OF assms(1-3) n, of pf ps clk, folded jn]
  show "processed_items (job_within pf ps clk job n) = int n"
    and "successful_items (job_within pf ps clk job n) + failed_items (job_within pf ps clk job n)
           = int n + 1"
    and "total_items (job_within pf ps clk job n) = total_items job"
    unfolding w using a by (simp_all add: count_outcome_fields)
qed

lemma process_items_resume:
  assumes "n \<le> length xs"
  shows "process_items pf clk i ps xs 0 job =
     (case process_items pf clk i ps (take n xs) 0 job of
        (jn, psn, i_n) \<Rightarrow> process_items pf clk i_n psn (drop n xs) n jn)"
proof -
  have l: "length (take n xs) = n"
    using assms by simp
  have "process_items pf clk i ps (take n xs @ drop n xs) 0 job =
     (case process_items pf clk i ps (take n xs) 0 job of
        (j, ps', i') \<Rightarrow> process_items pf clk i' ps' (drop n xs) (0 + length (take n xs)) j)"
    by (rule process_items_append)
  then show ?thesis
    by (simp only: append_take_drop_id l add_0)
qed

text \<open>
  Claim C5, as the code has it. For a job with its counters at zero and \<^verbatim>\<open>total_items\<close>
  the number of its items, as \<^verbatim>\<open>BatchJob.__init__\<close> leaves them: at every point where the
  loop of \<^verbatim>\<open>process_batch\<close> stands between two items (once processing has started, after
  each item, after the last) and in the job the call leaves, the processed items are the
  successful plus the failed ones, they are at most \<^verbatim>\<open>total_items\<close>, and \<^verbatim>\<open>total_items\<close>
  is still the number of items the job was created with. After \<open>n\<close> items \<open>n\<close> are
  processed, and the loop goes on from that job over the items that remain. While item
  \<open>n\<close> is being processed, between the counting of its outcome and the counting of the
  item as processed, \<open>n\<close> items are processed and the successful and failed ones are
  \<open>n + 1\<close>; \<^verbatim>\<open>total_items\<close> is as before.
\<close>

theorem counters_invariant:
  assumes "processed_items job = 0" "successful_items job = 0" "failed_items job = 0"
    and "total_items job = int (length (items job))"
  shows "(\<forall>j \<in> set (job_states pf ps clk job). counters_consistent (length (items job)) j)
       \<and> (\<forall>n \<le> length (items job).
            processed_items (job_after pf ps clk job n) = int n
          \<and> (case process_items pf clk 2 ps (take n (items job)) 0 (started_job clk job) of
               (jn, psn, i_n) \<Rightarrow>
                 process_items pf clk 2 ps (items job) 0 (started_job clk job)
                   = process_items pf clk i_n psn (drop n (items job)) n jn))
       \<and> (\<forall>n < length (items job).
            processed_items (job_within pf ps clk job n) = int n
          \<and> successful_items (job_within pf ps clk job n)
              + failed_items (job_within pf ps clk job n) = int n + 1
          \<and> total_items (job_within pf ps clk job n) = int (length (items job)))"
proof (intro conjI ballI allI impI)
  fix j assume "j \<in> set (job_states pf ps clk job)"
  then consider n where "n \<le> length (items job)" "j = job_after pf ps clk job n"
    | "j = fst (process_batch (Some pf) ps clk job)"
    by (auto simp: job_states_def less_Suc_eq_le simp del: upt_Suc)
  then show "counters_consistent (length (items job)) j"
  proof cases
    case 1
    with job_after_counters [OF assms(1-3) 1(1), of pf ps clk] assms(4)
    show ?thesis by (simp add: counters_consistent_def)
  next
    case 2
    with process_batch_final [OF assms, of pf ps clk]
    show ?thesis by (auto simp: counters_consistent_def Let_def)
  qed
next
  fix n assume "n \<le> length (items job)"
  then show "processed_items (job_after pf ps clk job n) = int n"
    by (rule job_after_counters(1) [OF assms(1-3)])
next
  fix n assume n: "n \<le> length (items job)"
  show "case process_items pf clk 2 ps (take n (items job)) 0 (started_job clk job) of
               (jn, psn, i_n) \<Rightarrow>
                 process_items pf clk 2 ps (items job) 0 (started_job clk job)
                   = process_items pf clk i_n psn (drop n (items job)) n jn"
  proof -
    obtain jn psn i_n where
      pre: "process_items pf clk 2 ps (take n (items job)) 0 (started_job clk job)
              = (jn, psn, i_n)"
      by (cases "process_items pf clk 2 ps (take n (items job)) 0 (started_job clk job)") auto
    have "process_items pf clk 2 ps (items job) 0 (started_job clk job)
            = process_items pf clk i_n psn (drop n (items job)) n jn"
      by (simp only: process_items_resume [OF n, of pf clk 2 ps "started_job clk job"]
            pre prod.case)
    then show ?thesis by (simp only: pre prod.case)
  qed
next
  fix n assume "n < length (items job)"
  then show "processed_items (job_within pf ps clk job n) = int n"
    by (rule job_within_counters(1) [OF assms(1-3)])
next
  fix n assume "n < length (items job)"
  then show "successful_items (job_within pf ps clk job n)
              + failed_items (job_within pf ps clk job n) = int n + 1"
    by (rule job_within_counters(2) [OF assms(1-3)])
next
  fix n assume "n < length (items job)"
  then show "total_items (job_within pf ps clk job n) = int (length (items job))"
    using job_within_counters(3) [OF assms(1-3), of n pf ps clk] assms(4) by simp
qed

theorem counters_invariant_witness:
  "list_all (counters_consistent 3) (job_states demo_processor 0 (\<lambda>k. int k) demo_job)
   \<and> length (job_states demo_processor 0 (\<lambda>k. int k) demo_job) = 5
   \<and> processed_items (job_after demo_processor 0 (\<lambda>k. int k) demo_job 2) = 2
   \<and> processed_items (job_within demo_processor 0 (\<lambda>k. int k) demo_job 2) = 2
   \<and> successful_items (job_within demo_processor 0 (\<lambda>k. int k) demo_job 2)
       + failed_items (job_within demo_processor 0 (\<lambda>k. int k) demo_job 2) = 3"
proof -
  have n: "length (items demo_job) = 3"
    by (simp add: demo_job_def BatchJob_init_def)
  note T = counters_invariant [OF demo_fresh, of demo_processor 0 "\<lambda>k. int k"]
  from T have "\<forall>j \<in> set (job_states demo_processor 0 (\<lambda>k. int k) demo_job).
                 counters_consistent 3 j"
    by (simp add: n)
  then have 1: "list_all (counters_consistent 3) (job_states demo_processor 0 (\<lambda>k. int k) demo_job)"
    by (simp add: list_all_iff)
  have 2: "length (job_states demo_processor 0 (\<lambda>k. int k) demo_job) = 5"
    by (simp add: job_states_def n)
  from T have "\<forall>k \<le> 3. processed_items (job_after demo_processor 0 (\<lambda>k. int k) demo_job k) = int k"
    by (simp add: n)
  from this [rule_format, of 2]
  have 3: "processed_items (job_after demo_processor 0 (\<lambda>k. int k) demo_job 2) = 2"
    by simp
  from T have "\<forall>k < 3.
       processed_items (job_within demo_processor 0 (\<lambda>k. int k) demo_job k) = int k
     \<and> successful_items (job_within demo_processor 0 (\<lambda>k. int k) demo_job k)
         + failed_items (job_within demo_processor 0 (\<lambda>k. int k) demo_job k) = int k + 1"
    by (simp add: n)
  from this [rule_format, of 2]
  have 4: "processed_items (job_within demo_processor 0 (\<lambda>k. int k) demo_job 2) = 2"
    "successful_items (job_within demo_processor 0 (\<lambda>k. int k) demo_job 2)
       + failed_items (job_within demo_processor 0 (\<lambda>k. int k) demo_job 2) = 3"
    by simp_all
  from 1 2 3 4 show ?thesis by simp
qed

text \<open>
  The claim as it is stated, for every point once processing starts, fails inside the
  first iteration of the instance: the first item is counted as successful and not yet
  as processed.
\<close>

theorem counters_invariant_counterexample:
  "processed_items (job_within demo_processor 0 (\<lambda>k. int k) demo_job 0) = 0
   \<and> successful_items (job_within demo_processor 0 (\<lambda>k. int k) demo_job 0) = 1
   \<and> failed_items (job_within demo_processor 0 (\<lambda>k. int k) demo_job 0) = 0
   \<and> \<not> counters_consistent 3 (job_within demo_processor 0 (\<lambda>k. int k) demo_job 0)"
  by code_simp

subsection \<open>The structured record of a job\<close>

lemma BatchType_of_value: "BatchType_of repr (value_BatchType bt) = Inr bt"
  by (cases bt) (simp_all add: BatchType_of_def)

lemma BatchStatus_of_value: "BatchStatus_of repr (value_BatchStatus st) = Inr st"
  by (cases st) (simp_all add: BatchStatus_of_def)

lemma BatchItem_round_trip_fields:
  assumes "\<forall>t. \<exists>t'. fromisoformat (isoformat t) = Inr t'"
  shows "\<exists>item'. BatchItem_from_dict fromisoformat new_id (BatchItem_to_dict isoformat item)
                    = Inr item'
           \<and> id_item item' = id_item item \<and> data item' = data item
           \<and> status_item item' = status_item item
           \<and> error_message item' = error_message item"
proof (cases "processed_at item")
  case None
  then show ?thesis
    by (simp add: BatchItem_from_dict_def BatchItem_to_dict_def BatchItem_init_def Let_def)
next
  case (Some t)
  from assms obtain t' where "fromisoformat (isoformat t) = Inr t'" by blast
  with Some show ?thesis
    by (simp add: BatchItem_from_dict_def BatchItem_to_dict_def BatchItem_init_def Let_def)
qed

lemma BatchItem_round_trip:
  assumes "\<forall>t. fromisoformat (isoformat t) = Inr t \<and> isoformat t \<noteq> []"
  shows "BatchItem_from_dict fromisoformat new_id (BatchItem_to_dict isoformat item) = Inr item"
  using assms
  by (cases item; cases "processed_at item")
     (simp_all add: BatchItem_from_dict_def BatchItem_to_dict_def BatchItem_init_def Let_def)

lemma items_round_trip_fields:
  assumes "\<forall>t. \<exists>t'. fromisoformat (isoformat t) = Inr t'"
  shows "\<exists>its'. items_from_dict fromisoformat uuid j (map (BatchItem_to_dict isoformat) its)
                   = Inr its'
           \<and> length its' = length its
           \<and> map id_item its' = map id_item its \<and> map data its' = map data its
           \<and> map status_item its' = map status_item its
           \<and> map error_message its' = map error_message its"
proof (induction its arbitrary: j)
  case Nil
  show ?case by simp
next
  case (Cons item rest)
  from BatchItem_round_trip_fields [OF assms, of "uuid j" item] obtain item' where
    1: "BatchItem_from_dict fromisoformat (uuid j) (BatchItem_to_dict isoformat item) = Inr item'"
    and 2: "id_item item' = id_item item" "data item' = data item"
      "status_item item' = status_item item" "error_message item' = error_message item"
    by blast
  from Cons.IH [of "Suc j"] obtain its' where
    3: "items_from_dict fromisoformat uuid (Suc j) (map (BatchItem_to_dict isoformat) rest)
          = Inr its'"
    and 4: "length its' = length rest" "map id_item its' = map id_item rest"
      "map data its' = map data rest" "map status_item its' = map status_item rest"
      "map error_message its' = map error_message rest"
    by blast
  from 1 2 3 4 show ?case by simp
qed

lemma items_round_trip:
  assumes "\<forall>t. fromisoformat (isoformat t) = Inr t \<and> isoformat t \<noteq> []"
  shows "items_from_dict fromisoformat uuid j (map (BatchItem_to_dict isoformat) its) = Inr its"
  by (induction its arbitrary: j) (simp_all add: BatchItem_round_trip [OF assms])

lemma optional_time_returns:
  assumes "\<forall>t. \<exists>t'. fromisoformat (isoformat t) = Inr t'"
  shows "\<exists>r. optional_time fromisoformat
                (case x of None \<Rightarrow> None | Some t \<Rightarrow> Some (isoformat t)) = Inr r"
proof (cases x)
  case None
  then show ?thesis by (simp add: optional_time_def)
next
  case (Some t)
  from assms obtain t' where "fromisoformat (isoformat t) = Inr t'" by blast
  with Some show ?thesis by (simp add: optional_time_def)
qed

lemma optional_time_round_trip:
  assumes "\<forall>t. fromisoformat (isoformat t) = Inr t \<and> isoformat t \<noteq> []"
  shows "optional_time fromisoformat
           (case x of None \<Rightarrow> None | Some t \<Rightarrow> Some (isoformat t)) = Inr x"
  using assms by (cases x) (simp_all add: optional_time_def)

lemma BatchJob_round_trip:
  assumes "\<forall>t. fromisoformat (isoformat t) = Inr t \<and> isoformat t \<noteq> []"
  shows "BatchJob_from_dict repr fromisoformat uuid clk (BatchJob_to_dict isoformat job) = Inr job"
  using assms
  by (cases job)
     (simp add: BatchJob_from_dict_def BatchJob_to_dict_def BatchJob_init_def Let_def
        BatchType_of_value BatchStatus_of_value items_round_trip [OF assms]
        optional_time_round_trip [OF assms])

lemma BatchJob_round_trip_fields:
  assumes "\<forall>t. \<exists>t'. fromisoformat (isoformat t) = Inr t'"
  shows "\<exists>job'. BatchJob_from_dict repr fromisoformat uuid clk (BatchJob_to_dict isoformat job)
                   = Inr job'
           \<and> length (items job') = length (items job)
           \<and> map status_item (items job') = map status_item (items job)
           \<and> map id_item (items job') = map id_item (items job)
           \<and> map data (items job') = map data (items job)
           \<and> map error_message (items job') = map error_message (items job)
           \<and> id_job job' = id_job job \<and> name_job job' = name_job job
           \<and> batch_type job' = batch_type job \<and> status job' = status job
           \<and> total_items job' = total_items job \<and> processed_items job' = processed_items job
           \<and> successful_items job' = successful_items job
           \<and> failed_items job' = failed_items job"
proof -
  from items_round_trip_fields [OF assms, of uuid 0 "items job"] obtain its' where
    1: "items_from_dict fromisoformat uuid 0 (map (BatchItem_to_dict isoformat) (items job))
          = Inr its'"
    and 2: "length its' = length (items job)" "map id_item its' = map id_item (items job)"
      "map data its' = map data (items job)" "map status_item its' = map status_item (items job)"
      "map error_message its' = map error_message (items job)"
    by blast
  from assms obtain c u where
    3: "fromisoformat (isoformat (created_at_job job)) = Inr c"
    and 4: "fromisoformat (isoformat (updated_at_job job)) = Inr u"
    by blast
  from optional_time_returns [OF assms] obtain s e where
    5: "optional_time fromisoformat
          (case started_at job of None \<Rightarrow> None | Some t \<Rightarrow> Some (isoformat t)) = Inr s"
    and 6: "optional_time fromisoformat
          (case completed_at job of None \<Rightarrow> None | Some t \<Rightarrow> Some (isoformat t)) = Inr e"
    by blast
  from 1 2 3 4 5 6 show ?thesis
    by (simp add: BatchJob_from_dict_def BatchJob_to_dict_def BatchJob_init_def Let_def
        BatchType_of_value BatchStatus_of_value)
qed


lemma demo_iso_inverse:
  "\<forall>t. demo_fromisoformat (demo_isoformat t) = Inr t \<and> demo_isoformat t \<noteq> []"
  by (simp add: demo_fromisoformat_def demo_isoformat_def)

lemma demo_processed_statuses:
  "map status_item (items (fst (process_batch (Some demo_processor) 0 (\<lambda>k. int k) demo_job)))
     = [''Completed'', ''Failed'', ''Failed'']"
  by code_simp

text \<open>
  Claim C7. A job written to its structured record by \<^verbatim>\<open>BatchJob.to_dict\<close> and read back
  by \<^verbatim>\<open>BatchJob.from_dict\<close> comes back with as many items as it had and with the status of
  every item, in order; so do the identifiers, the payloads and the error messages of the
  items, and the identifier, the name, the type, the status and the counters of the job.
  This holds whenever \<^verbatim>\<open>fromisoformat\<close> reads every text \<^verbatim>\<open>isoformat\<close> writes. When it
  reads each as the time that was written, and no such text is empty, the job read is the
  job written.
\<close>

theorem structured_record_round_trip:
  assumes "\<forall>t. \<exists>t'. fromisoformat (isoformat t) = Inr t'"
  shows "\<exists>job'. BatchJob_from_dict repr fromisoformat uuid clk (BatchJob_to_dict isoformat job)
                   = Inr job'
           \<and> length (items job') = length (items job)
           \<and> map status_item (items job') = map status_item (items job)
           \<and> map id_item (items job') = map id_item (items job)
           \<and> map data (items job') = map data (items job)
           \<and> map error_message (items job') = map error_message (items job)
           \<and> id_job job' = id_job job \<and> name_job job' = name_job job
           \<and> batch_type job' = batch_type job \<and> status job' = status job
           \<and> total_items job' = total_items job \<and> processed_items job' = processed_items job
           \<and> successful_items job' = successful_items job
           \<and> failed_items job' = failed_items job
           \<and> ((\<forall>t. fromisoformat (isoformat t) = Inr t \<and> isoformat t \<noteq> []) \<longrightarrow> job' = job)"
proof -
  from BatchJob_round_trip_fields [OF assms, of repr uuid clk job] obtain job' where
    r: "BatchJob_from_dict repr fromisoformat uuid clk (BatchJob_to_dict isoformat job) = Inr job'"
    and f: "length (items job') = length (items job)
           \<and> map status_item (items job') = map status_item (items job)
           \<and> map id_item (items job') = map id_item (items job)
           \<and> map data (items job') = map data (items job)
           \<and> map error_message (items job') = map error_message (items job)
           \<and> id_job job' = id_job job \<and> name_job job' = name_job job
           \<and> batch_type job' = batch_type job \<and> status job' = status job
           \<and> total_items job' = total_items job \<and> processed_items job' = processed_items job
           \<and> successful_items job' = successful_items job
           \<and> failed_items job' = failed_items job"
    by blast
  have "job' = job" if "\<forall>t. fromisoformat (isoformat t) = Inr t \<and> isoformat t \<noteq> []"
    using BatchJob_round_trip [OF that, of repr uuid clk job] r by simp
  with r f show ?thesis by blast
qed

theorem structured_record_round_trip_witness:
  "BatchJob_from_dict demo_repr demo_fromisoformat demo_uuid (\<lambda>k. int k)
     (BatchJob_to_dict demo_isoformat
        (fst (process_batch (Some demo_processor) 0 (\<lambda>k. int k) demo_job)))
     = Inr (fst (process_batch (Some demo_processor) 0 (\<lambda>k. int k) demo_job))
   \<and> map status_item (items (fst (process_batch (Some demo_processor) 0 (\<lambda>k. int k) demo_job)))
       = [''Completed'', ''Failed'', ''Failed'']"
proof -
  let ?J = "fst (process_batch (Some demo_processor) 0 (\<lambda>k. int k) demo_job)"
  have w: "\<forall>t. \<exists>t'. demo_fromisoformat (demo_isoformat t) = Inr t'"
    using demo_iso_inverse by blast
  from structured_record_round_trip [OF w, of demo_repr demo_uuid "\<lambda>k. int k" ?J]
  obtain job' where
    "BatchJob_from_dict demo_repr demo_fromisoformat demo_uuid (\<lambda>k. int k)
       (BatchJob_to_dict demo_isoformat ?J) = Inr job'"
    and "(\<forall>t. demo_fromisoformat (demo_isoformat t) = Inr t \<and> demo_isoformat t \<noteq> [])
           \<longrightarrow> job' = ?J"
    by blast
  with demo_iso_inverse demo_processed_statuses show ?thesis
    by simp
qed

subsection \<open>CSV export and import\<close>

lemma length_writerow: "writerow hs row = Inr cells \<Longrightarrow> length cells = length hs"
  by (auto simp: writerow_def split: if_splits)

lemma write_items_shape:
  "write_items fmt hs its = (True, written) \<Longrightarrow>
     length written = length its \<and> (\<forall>r \<in> set written. length r = length hs)"
proof (induction its arbitrary: written)
  case Nil
  then show ?case by simp
next
  case (Cons item rest)
  then obtain cells w' where
    c: "writerow hs (export_row fmt item) = Inr cells"
    and w: "write_items fmt hs rest = (True, w')"
    and wr: "written = cells # w'"
    by (auto split: sum.splits prod.splits)
  from Cons.IH [OF w] length_writerow [OF c] wr show ?case by simp
qed

lemma reader_row_returns:
  "\<forall>cell \<in> set row. length cell \<le> field_size_limit \<Longrightarrow> reader_row row = Inr row"
  by (auto simp: reader_row_def)

lemma reader_row_raises:
  "\<not> (\<forall>cell \<in> set row. length cell \<le> field_size_limit) \<Longrightarrow>
     reader_row row = Inl (Exception ''field larger than field limit (131072)'')"
  by (auto simp: reader_row_def not_le)

lemma import_rows_returns:
  "\<forall>r \<in> set rws. length r \<le> length hs \<and> (\<forall>cell \<in> set r. length cell \<le> field_size_limit) \<Longrightarrow>
     import_rows hs rws =
       Inr (map (\<lambda>row. filter (\<lambda>(key, v). \<not> special_prefix key) (fst (DictReader_row hs row)))
              (filter (\<lambda>r. r \<noteq> []) rws))"
  by (induction rws) (simp_all add: reader_row_returns import_row_def DictReader_row_def)

lemma import_rows_raises:
  "\<not> (\<forall>r \<in> set rws. length r \<le> length hs \<and> (\<forall>cell \<in> set r. length cell \<le> field_size_limit))
     \<Longrightarrow> \<exists>e. import_rows hs rws = Inl e"
proof (induction rws)
  case Nil
  then show ?case by simp
next
  case (Cons row rest)
  show ?case
  proof (cases "\<forall>cell \<in> set row. length cell \<le> field_size_limit")
    case False
    from reader_row_raises [OF False] show ?thesis by simp
  next
    case True
    note cells = reader_row_returns [OF True]
    show ?thesis
    proof (cases "length row \<le> length hs")
      case False
      then have "row \<noteq> []" by auto
      with False cells show ?thesis
        by (simp add: import_row_def DictReader_row_def)
    next
      case short: True
      with True Cons.prems
      have "\<not> (\<forall>r \<in> set rest. length r \<le> length hs
                 \<and> (\<forall>cell \<in> set r. length cell \<le> field_size_limit))"
        by simp
      from Cons.IH [OF this] obtain e where "import_rows hs rest = Inl e" ..
      with cells short show ?thesis
        by (simp add: import_row_def DictReader_row_def)
    qed
  qed
qed

lemma map_data_enumerate:
  "map data (map (\<lambda>(j, d). BatchItem_init (uuid j) d) (enumerate n its)) = its"
  by (induction its arbitrary: n) (auto simp: BatchItem_init_def)

lemma map_status_enumerate:
  "map status_item (map (\<lambda>(j, d). BatchItem_init (uuid j) d) (enumerate n its))
     = replicate (length its) ''Pending''"
  by (induction its arbitrary: n) (auto simp: BatchItem_init_def)

lemma import_creates_job:
  assumes "reader_row hs = Inr hs" "import_rows hs rws = Inr its"
  shows "\<exists>m' j'. import_batch_from_csv strftime uuid clk m (hs # rws) bt nm descr meta
                  = (Some (uuid (length its)), m')
           \<and> get_batch_job m' (uuid (length its)) = Some j'
           \<and> map data (items j') = its
           \<and> map status_item (items j') = replicate (length its) ''Pending''
           \<and> total_items j' = int (length its) \<and> status j' = PENDING"
  using assms
  by (simp add: import_batch_from_csv_def create_batch_job_def Let_def get_batch_job_def
      BatchJob_init_def update_conv' map_data_enumerate map_status_enumerate del: map_map)

lemma import_raises:
  assumes "reader_row hs \<noteq> Inr hs \<or> (\<exists>e. import_rows hs rws = Inl e)"
  shows "import_batch_from_csv strftime uuid clk m (hs # rws) bt nm descr meta = (None, m)"
  using assms
  by (auto simp: import_batch_from_csv_def reader_row_def split: if_splits)

lemma import_returns_iff:
  "(\<exists>job_id m'. import_batch_from_csv strftime uuid clk m (hs # rws) bt nm descr meta
                  = (Some job_id, m'))
   \<longleftrightarrow> (\<forall>row \<in> set (hs # rws). \<forall>cell \<in> set row. length cell \<le> field_size_limit)
         \<and> (\<forall>r \<in> set rws. length r \<le> length hs)"
proof (cases "\<forall>cell \<in> set hs. length cell \<le> field_size_limit")
  case False
  from reader_row_raises [OF False]
  have "import_batch_from_csv strftime uuid clk m (hs # rws) bt nm descr meta = (None, m)"
    by (intro import_raises) simp
  with False show ?thesis by simp
next
  case True
  note h = reader_row_returns [OF True]
  show ?thesis
  proof (cases "\<forall>r \<in> set rws. length r \<le> length hs
                  \<and> (\<forall>cell \<in> set r. length cell \<le> field_size_limit)")
    case ok: True
    from import_creates_job [OF h import_rows_returns [OF ok], of strftime uuid clk m bt nm descr meta]
    have "\<exists>job_id m'. import_batch_from_csv strftime uuid clk m (hs # rws) bt nm descr meta
                  = (Some job_id, m')"
      by blast
    with True ok show ?thesis by auto
  next
    case False
    from import_rows_raises [OF False]
    have "import_batch_from_csv strftime uuid clk m (hs # rws) bt nm descr meta = (None, m)"
      by (intro import_raises) simp
    with False show ?thesis by auto
  qed
qed

lemma import_returns_None:
  "import_batch_from_csv strftime uuid clk m file bt nm descr meta = (None, m')
     \<Longrightarrow> m' = m"
  by (auto simp: import_batch_from_csv_def create_batch_job_def Let_def
      split: sum.splits list.splits)

lemma import_returned_job:
  assumes "import_batch_from_csv strftime uuid clk m (hs # rws) bt nm descr meta
             = (Some job_id, m')"
  shows "\<exists>j'. get_batch_job m' job_id = Some j'
           \<and> map data (items j') =
               map (\<lambda>row. filter (\<lambda>(key, v). \<not> special_prefix key) (fst (DictReader_row hs row)))
                 (filter (\<lambda>r. r \<noteq> []) rws)
           \<and> map status_item (items j')
               = replicate (length (filter (\<lambda>r. r \<noteq> []) rws)) ''Pending''
           \<and> total_items j' = int (length (filter (\<lambda>r. r \<noteq> []) rws)) \<and> status j' = PENDING"
proof -
  from assms import_returns_iff [of strftime uuid clk m hs rws bt nm descr meta]
  have c: "\<forall>cell \<in> set hs. length cell \<le> field_size_limit"
    and ok: "\<forall>r \<in> set rws. length r \<le> length hs
               \<and> (\<forall>cell \<in> set r. length cell \<le> field_size_limit)"
    by auto
  let ?its = "map (\<lambda>row. filter (\<lambda>(key, v). \<not> special_prefix key) (fst (DictReader_row hs row)))
                (filter (\<lambda>r. r \<noteq> []) rws)"
  from import_creates_job [OF reader_row_returns [OF c] import_rows_returns [OF ok],
      of strftime uuid clk m bt nm descr meta]
  obtain m2 j' where
    1: "import_batch_from_csv strftime uuid clk m (hs # rws) bt nm descr meta
          = (Some (uuid (length ?its)), m2)"
    and 2: "get_batch_job m2 (uuid (length ?its)) = Some j'"
    and 3: "map data (items j') = ?its"
    and 4: "map status_item (items j') = replicate (length ?its) ''Pending''"
    and 5: "total_items j' = int (length ?its)" "status j' = PENDING"
    by blast
  from 1 assms have "job_id = uuid (length ?its)" "m' = m2" by simp_all
  with 2 3 4 5 show ?thesis by simp
qed

lemma special_prefix_examples:
  "special_prefix ''identifier''" "special_prefix ''status_code''"
  "special_prefix ''id''" "special_prefix ''status''" "special_prefix ''error_message''"
  "special_prefix ''processed_at''"
  by (simp_all add: special_prefix_def startswith_def)

lemma data_prefix_kept: "\<not> special_prefix (''data_'' @ key)"
  by (simp add: special_prefix_def startswith_def)

lemma DictReader_row_distinct:
  "distinct hs \<Longrightarrow> length row = length hs \<Longrightarrow>
     fst (DictReader_row hs row) = zip hs (map Some row)"
proof -
  have "distinct (map fst acc @ map fst ps) \<Longrightarrow>
        foldl (\<lambda>d (key, v). AList.update key v d) acc ps = acc @ ps"
    for acc ps :: "(string \<times> string option) list"
  proof (induction ps arbitrary: acc)
    case Nil
    show ?case by simp
  next
    case (Cons p ps)
    obtain k v where p: "p = (k, v)" by (cases p) auto
    from Cons.prems p have "k \<notin> fst ` set acc" by auto
    then have u: "AList.update k v acc = acc @ [(k, v)]"
      by (induction acc) auto
    from Cons.prems p have "distinct (map fst (acc @ [(k, v)]) @ map fst ps)" by auto
    from Cons.IH [OF this] u p show ?case by simp
  qed
  from this [of "[]" "zip hs (map Some row)"]
  show "distinct hs \<Longrightarrow> length row = length hs \<Longrightarrow>
     fst (DictReader_row hs row) = zip hs (map Some row)"
    by (simp add: DictReader_row_def)
qed

lemma export_to_csv_shape:
  assumes "export_to_csv fmt job = (True, written)"
  shows "\<exists>hs rws. written = hs # rws \<and> length rws = length (items job)
           \<and> (\<forall>r \<in> set rws. length r = length hs) \<and> 4 \<le> length hs
           \<and> hs = [''id'', ''status'', ''error_message'', ''processed_at'']
                   @ (case items job of
                        [] \<Rightarrow> []
                      | first # _ \<Rightarrow> map (\<lambda>(key, v). ''data_'' @ key) (data first))"
proof -
  let ?hs = "[''id'', ''status'', ''error_message'', ''processed_at'']
              @ (case items job of
                   [] \<Rightarrow> []
                 | first # _ \<Rightarrow> map (\<lambda>(key, v). ''data_'' @ key) (data first))"
  obtain ok w where w: "write_items fmt ?hs (items job) = (ok, w)"
    by (cases "write_items fmt ?hs (items job)") auto
  with assms have ok: "ok" and f: "written = ?hs # w"
    by (simp_all add: export_to_csv_def Let_def)
  from w ok write_items_shape [of fmt ?hs "items job" w]
  have "length w = length (items job)" "\<forall>r \<in> set w. length r = length ?hs"
    by simp_all
  with f show ?thesis by simp
qed

text \<open>
  The tabular path. When \<^verbatim>\<open>_export_to_csv\<close> has written a job and
  \<^verbatim>\<open>import_batch_from_csv\<close> returns a job for the file, the new job has as many items as
  the exported one, and every one of them is Pending: the file holds the statuses, the
  import does not read them.
\<close>

lemma csv_import_makes_pending:
  assumes "export_to_csv fmt job = (True, written)"
    and "import_batch_from_csv strftime uuid clk m written bt nm descr meta = (Some job_id, m')"
  shows "\<exists>j'. get_batch_job m' job_id = Some j'
           \<and> length (items j') = length (items job)
           \<and> total_items j' = int (length (items job))
           \<and> map status_item (items j') = replicate (length (items job)) ''Pending''"
proof -
  from export_to_csv_shape [OF assms(1)] obtain hs rws where
    f: "written = hs # rws" and n: "length rws = length (items job)"
    and l: "\<forall>r \<in> set rws. length r = length hs" and h: "4 \<le> length hs"
    by blast
  from l h have nonblank: "filter (\<lambda>r. r \<noteq> []) rws = rws"
    by (auto simp: filter_id_conv)
  from import_returned_job [OF assms(2) [unfolded f]] obtain j' where
    1: "get_batch_job m' job_id = Some j'"
    and 2: "map status_item (items j')
              = replicate (length (filter (\<lambda>r. r \<noteq> []) rws)) ''Pending''"
    and 3: "total_items j' = int (length (filter (\<lambda>r. r \<noteq> []) rws))"
    by blast
  from 2 have "length (map status_item (items j')) = length rws"
    unfolding nonblank by simp
  then have 4: "length (items j') = length (items job)"
    using n by simp
  from 1 2 3 4 show ?thesis
    unfolding nonblank n by blast
qed

lemma map_fst_filter_zip:
  "length vs = length hs \<Longrightarrow> map fst (filter (\<lambda>(k, v). P k) (zip hs vs)) = filter P hs"
  by (induction vs hs rule: list_induct2) auto

lemma filter_special_headers:
  "filter (\<lambda>k. \<not> special_prefix k)
     ([''id'', ''status'', ''error_message'', ''processed_at'']
        @ map (\<lambda>(key, v). ''data_'' @ key) d)
   = map (\<lambda>(key, v). ''data_'' @ key) d"
proof -
  have "filter (\<lambda>k. \<not> special_prefix k) (map (\<lambda>(key, v). ''data_'' @ key) d)
          = map (\<lambda>(key, v). ''data_'' @ key) d"
    by (induction d) (auto simp: special_prefix_def startswith_def)
  then show ?thesis
    by (simp add: special_prefix_def startswith_def)
qed

lemma distinct_export_headers:
  assumes "distinct (map fst d)"
  shows "distinct ([''id'', ''status'', ''error_message'', ''processed_at'']
                     @ map (\<lambda>(key, v). ''data_'' @ key) (d :: payload))"
proof -
  have m: "map (\<lambda>(key, v). ''data_'' @ key) d = map ((@) ''data_'') (map fst d)"
    by (induction d) auto
  have "distinct (map ((@) ''data_'') (map fst d))"
    using assms by (simp add: distinct_map inj_on_def)
  moreover have "set [''id'', ''status'', ''error_message'', ''processed_at'']
                   \<inter> set (map ((@) ''data_'') (map fst d)) = {}"
    by auto
  ultimately show ?thesis
    unfolding m by (simp only: distinct_append) simp
qed

lemma export_import_returns_iff:
  assumes "export_to_csv fmt job = (True, written)"
  shows "(\<exists>job_id m'. import_batch_from_csv strftime uuid clk m written bt nm descr meta
                         = (Some job_id, m'))
         \<longleftrightarrow> (\<forall>row \<in> set written. \<forall>cell \<in> set row. length cell \<le> field_size_limit)"
proof -
  from export_to_csv_shape [OF assms] obtain hs rws where
    f: "written = hs # rws" and l: "\<forall>r \<in> set rws. length r = length hs"
    by blast
  from l have "\<forall>r \<in> set rws. length r \<le> length hs" by simp
  with import_returns_iff [of strftime uuid clk m hs rws bt nm descr meta]
  show ?thesis unfolding f by simp
qed

lemma export_import_field_names:
  assumes "items job = first # rest" "distinct (map fst (data first))"
    and "export_to_csv fmt job = (True, written)"
    and "import_batch_from_csv strftime uuid clk m written bt nm descr meta = (Some job_id, m')"
  shows "\<exists>j'. get_batch_job m' job_id = Some j'
           \<and> length (items j') = length (items job)
           \<and> (\<forall>it \<in> set (items j').
                 map fst (data it) = map (\<lambda>(key, v). ''data_'' @ key) (data first))"
proof -
  let ?hs = "[''id'', ''status'', ''error_message'', ''processed_at'']
               @ map (\<lambda>(key, v). ''data_'' @ key) (data first)"
  from export_to_csv_shape [OF assms(3)] assms(1) obtain rws where
    f: "written = ?hs # rws" and l: "\<forall>r \<in> set rws. length r = length ?hs"
    by auto
  from csv_import_makes_pending [OF assms(3) assms(4)] obtain j0 where
    a: "get_batch_job m' job_id = Some j0" and b: "length (items j0) = length (items job)"
    by blast
  from import_returned_job [OF assms(4) [unfolded f]] obtain j' where
    2: "get_batch_job m' job_id = Some j'"
    and 3: "map data (items j') =
              map (\<lambda>row. filter (\<lambda>(key, v). \<not> special_prefix key) (fst (DictReader_row ?hs row)))
                (filter (\<lambda>r. r \<noteq> []) rws)"
    by blast
  from a 2 have j: "j0 = j'" by simp
  have 4: "map fst (data it) = map (\<lambda>(key, v). ''data_'' @ key) (data first)"
    if "it \<in> set (items j')" for it
  proof -
    from that have "data it \<in> set (map data (items j'))" by simp
    with 3 obtain row where row: "row \<in> set rws"
      and d: "data it = filter (\<lambda>(key, v). \<not> special_prefix key) (fst (DictReader_row ?hs row))"
      by auto
    from row l have len: "length row = length ?hs" by simp
    have "fst (DictReader_row ?hs row) = zip ?hs (map Some row)"
      by (rule DictReader_row_distinct [OF distinct_export_headers [OF assms(2)] len])
    with d have "map fst (data it) = filter (\<lambda>k. \<not> special_prefix k) ?hs"
      using map_fst_filter_zip [of "map Some row" ?hs "\<lambda>k. \<not> special_prefix k"] len
      by simp
    then show ?thesis
      by (simp only: filter_special_headers)
  qed
  from 2 b 4 show ?thesis
    unfolding j by blast
qed

text \<open>
  Claim C10. Whenever \<^verbatim>\<open>import_batch_from_csv\<close> returns a job for a file, the payload of
  each item of that job is the dictionary the reader gives for the row without the fields
  whose name starts with id, status, error or processed, and with every other field kept
  under its name (for a header without duplicates and full rows: the header zipped with
  the cells, with those columns filtered out). It returns a job exactly when no cell of
  the file, header included, has more than 131072 characters and no row has more cells
  than the header; otherwise it returns \<^verbatim>\<open>None\<close> and creates no job. Names such as
  identifier and status_code are among the excluded; no name starting with \<^verbatim>\<open>data_\<close> is,
  so when a file \<^verbatim>\<open>_export_to_csv\<close> wrote is imported (which happens exactly when its cells
  are within that size) the columns of the payload come back under their names with
  \<^verbatim>\<open>data_\<close> in front.
\<close>

theorem import_excludes_special_columns:
  "(\<forall>job_id m'.
      import_batch_from_csv strftime uuid clk m (hs # rws) bt nm descr meta = (Some job_id, m')
      \<longrightarrow>
      (\<exists>j'. get_batch_job m' job_id = Some j'
        \<and> map data (items j') =
            map (\<lambda>row. filter (\<lambda>(key, v). \<not> special_prefix key) (fst (DictReader_row hs row)))
              (filter (\<lambda>r. r \<noteq> []) rws)
        \<and> (distinct hs \<and> (\<forall>r \<in> set rws. length r = length hs) \<longrightarrow>
             map data (items j') =
               map (\<lambda>row. filter (\<lambda>(key, v). \<not> special_prefix key) (zip hs (map Some row)))
                 (filter (\<lambda>r. r \<noteq> []) rws))
        \<and> (\<forall>it \<in> set (items j'). \<forall>key \<in> set (map fst (data it)). \<not> special_prefix key)))
   \<and> ((\<exists>job_id m'.
          import_batch_from_csv strftime uuid clk m (hs # rws) bt nm descr meta = (Some job_id, m'))
        \<longleftrightarrow> (\<forall>row \<in> set (hs # rws). \<forall>cell \<in> set row. length cell \<le> field_size_limit)
              \<and> (\<forall>r \<in> set rws. length r \<le> length hs))
   \<and> (\<not> ((\<forall>row \<in> set (hs # rws). \<forall>cell \<in> set row. length cell \<le> field_size_limit)
            \<and> (\<forall>r \<in> set rws. length r \<le> length hs))
        \<longrightarrow> import_batch_from_csv strftime uuid clk m (hs # rws) bt nm descr meta = (None, m))
   \<and> (\<forall>fmt job first rest written.
          items job = first # rest \<and> distinct (map fst (data first))
          \<and> export_to_csv fmt job = (True, written) \<longrightarrow>
          ((\<exists>job_id m'.
              import_batch_from_csv strftime uuid clk m written bt nm descr meta = (Some job_id, m'))
            \<longleftrightarrow> (\<forall>row \<in> set written. \<forall>cell \<in> set row. length cell \<le> field_size_limit))
          \<and> (\<forall>job_id m'.
                import_batch_from_csv strftime uuid clk m written bt nm descr meta
                  = (Some job_id, m') \<longrightarrow>
                (\<exists>j'. get_batch_job m' job_id = Some j'
                   \<and> length (items j') = length (items job)
                   \<and> (\<forall>it \<in> set (items j').
                         map fst (data it) = map (\<lambda>(key, v). ''data_'' @ key) (data first)))))
   \<and> special_prefix ''identifier'' \<and> special_prefix ''status_code''
   \<and> (\<forall>key. \<not> special_prefix (''data_'' @ key))
   \<and> (\<forall>key. special_prefix key \<longleftrightarrow>
         startswith key ''id'' \<or> startswith key ''status'' \<or> startswith key ''error''
         \<or> startswith key ''processed'')"
proof -
  let ?its = "map (\<lambda>row. filter (\<lambda>(key, v). \<not> special_prefix key) (fst (DictReader_row hs row)))
              (filter (\<lambda>r. r \<noteq> []) rws)"
  have 1: "\<exists>j'. get_batch_job m' job_id = Some j'
        \<and> map data (items j') = ?its
        \<and> (distinct hs \<and> (\<forall>r \<in> set rws. length r = length hs) \<longrightarrow>
             map data (items j') =
               map (\<lambda>row. filter (\<lambda>(key, v). \<not> special_prefix key) (zip hs (map Some row)))
                 (filter (\<lambda>r. r \<noteq> []) rws))
        \<and> (\<forall>it \<in> set (items j'). \<forall>key \<in> set (map fst (data it)). \<not> special_prefix key)"
    if r: "import_batch_from_csv strftime uuid clk m (hs # rws) bt nm descr meta
             = (Some job_id, m')"
    for job_id m'
  proof -
    from import_returned_job [OF r] obtain j' where
      g: "get_batch_job m' job_id = Some j'" and d: "map data (items j') = ?its"
      by blast
    have z: "map data (items j') =
               map (\<lambda>row. filter (\<lambda>(key, v). \<not> special_prefix key) (zip hs (map Some row)))
                 (filter (\<lambda>r. r \<noteq> []) rws)"
      if "distinct hs \<and> (\<forall>r \<in> set rws. length r = length hs)"
      using that d by (simp add: DictReader_row_distinct)
    have k: "\<forall>it \<in> set (items j'). \<forall>key \<in> set (map fst (data it)). \<not> special_prefix key"
    proof
      fix it assume "it \<in> set (items j')"
      then have "data it \<in> set (map data (items j'))" by simp
      with d show "\<forall>key \<in> set (map fst (data it)). \<not> special_prefix key" by auto
    qed
    from g d z k show ?thesis by blast
  qed
  note 2 = import_returns_iff [of strftime uuid clk m hs rws bt nm descr meta]
  have 3: "import_batch_from_csv strftime uuid clk m (hs # rws) bt nm descr meta = (None, m)"
    if "\<not> ((\<forall>row \<in> set (hs # rws). \<forall>cell \<in> set row. length cell \<le> field_size_limit)
            \<and> (\<forall>r \<in> set rws. length r \<le> length hs))"
  proof -
    obtain r m2 where e: "import_batch_from_csv strftime uuid clk m (hs # rws) bt nm descr meta
                            = (r, m2)"
      by (cases "import_batch_from_csv strftime uuid clk m (hs # rws) bt nm descr meta") auto
    with that 2 have "r = None" by (cases r) auto
    with e import_returns_None [of strftime uuid clk m "hs # rws" bt nm descr meta m2]
    show ?thesis by simp
  qed
  have 4: "((\<exists>job_id m'.
              import_batch_from_csv strftime uuid clk m written bt nm descr meta = (Some job_id, m'))
            \<longleftrightarrow> (\<forall>row \<in> set written. \<forall>cell \<in> set row. length cell \<le> field_size_limit))
          \<and> (\<forall>job_id m'.
                import_batch_from_csv strftime uuid clk m written bt nm descr meta
                  = (Some job_id, m') \<longrightarrow>
                (\<exists>j'. get_batch_job m' job_id = Some j'
                   \<and> length (items j') = length (items job)
                   \<and> (\<forall>it \<in> set (items j').
                         map fst (data it) = map (\<lambda>(key, v). ''data_'' @ key) (data first))))"
    if "items job = first # rest \<and> distinct (map fst (data first))
          \<and> export_to_csv fmt job = (True, written)"
    for fmt job first rest written
    using that
      export_import_returns_iff [of fmt job written strftime uuid clk m bt nm descr meta]
      export_import_field_names [of job first rest fmt written strftime uuid clk m bt nm descr meta]
    by blast
  have 5: "special_prefix ''identifier''" "special_prefix ''status_code''"
    "\<forall>key. \<not> special_prefix (''data_'' @ key)"
    "\<forall>key. special_prefix key \<longleftrightarrow>
         startswith key ''id'' \<or> startswith key ''status'' \<or> startswith key ''error''
         \<or> startswith key ''processed''"
    by (simp_all add: special_prefix_def startswith_def)
  from 1 have 1: "\<forall>job_id m'.
      import_batch_from_csv strftime uuid clk m (hs # rws) bt nm descr meta = (Some job_id, m')
      \<longrightarrow>
      (\<exists>j'. get_batch_job m' job_id = Some j'
        \<and> map data (items j') = ?its
        \<and> (distinct hs \<and> (\<forall>r \<in> set rws. length r = length hs) \<longrightarrow>
             map data (items j') =
               map (\<lambda>row. filter (\<lambda>(key, v). \<not> special_prefix key) (zip hs (map Some row)))
                 (filter (\<lambda>r. r \<noteq> []) rws))
        \<and> (\<forall>it \<in> set (items j'). \<forall>key \<in> set (map fst (data it)). \<not> special_prefix key))"
    by blast
  from 3 have 3: "\<not> ((\<forall>row \<in> set (hs # rws). \<forall>cell \<in> set row. length cell \<le> field_size_limit)
            \<and> (\<forall>r \<in> set rws. length r \<le> length hs))
        \<longrightarrow> import_batch_from_csv strftime uuid clk m (hs # rws) bt nm descr meta = (None, m)"
    by blast
  from 4 have 4: "\<forall>fmt job first rest written.
          items job = first # rest \<and> distinct (map fst (data first))
          \<and> export_to_csv fmt job = (True, written) \<longrightarrow>
          ((\<exists>job_id m'.
              import_batch_from_csv strftime uuid clk m written bt nm descr meta = (Some job_id, m'))
            \<longleftrightarrow> (\<forall>row \<in> set written. \<forall>cell \<in> set row. length cell \<le> field_size_limit))
          \<and> (\<forall>job_id m'.
                import_batch_from_csv strftime uuid clk m written bt nm descr meta
                  = (Some job_id, m') \<longrightarrow>
                (\<exists>j'. get_batch_job m' job_id = Some j'
                   \<and> length (items j') = length (items job)
                   \<and> (\<forall>it \<in> set (items j').
                         map fst (data it) = map (\<lambda>(key, v). ''data_'' @ key) (data first))))"
    by blast
  from 1 2 3 4 5 show ?thesis
    by (intro conjI)
qed

theorem import_excludes_special_columns_witness:
  "(\<exists>job_id m' j'.
      import_batch_from_csv demo_render demo_uuid (\<lambda>k. int k) \<lparr>batch_jobs = []\<rparr> demo_file PAYMENT
          None '''' None = (Some job_id, m')
    \<and> get_batch_job m' job_id = Some j'
    \<and> map data (items j') = [[(''amount'', Some ''10.00''), (''data_card'', Some ''4111'')]])
   \<and> import_batch_from_csv demo_render demo_uuid (\<lambda>k. int k) \<lparr>batch_jobs = []\<rparr>
        [[''amount''], [replicate 131073 CHR ''7'']] PAYMENT None '''' None
       = (None, \<lparr>batch_jobs = []\<rparr>)"
proof -
  let ?hs = "[''identifier'', ''status_code'', ''amount'', ''data_card'']"
  let ?rws = "[[''7'', ''200'', ''10.00'', ''4111'']]"
  note t = import_excludes_special_columns
             [of demo_render demo_uuid "\<lambda>k. int k" "\<lparr>batch_jobs = []\<rparr>" ?hs ?rws
                 PAYMENT None "''''" None]
  have v: "map (\<lambda>row. filter (\<lambda>(key, v). \<not> special_prefix key) (fst (DictReader_row ?hs row)))
              (filter (\<lambda>r. r \<noteq> []) ?rws)
           = [[(''amount'', Some ''10.00''), (''data_card'', Some ''4111'')]]"
    by (simp add: DictReader_row_def special_prefix_def startswith_def)
  have ok: "(\<forall>row \<in> set (?hs # ?rws). \<forall>cell \<in> set row. length cell \<le> field_size_limit)
              \<and> (\<forall>r \<in> set ?rws. length r \<le> length ?hs)"
    by (simp add: field_size_limit_def)
  from t [THEN conjunct2, THEN conjunct1] ok obtain job_id m' where
    r: "import_batch_from_csv demo_render demo_uuid (\<lambda>k. int k) \<lparr>batch_jobs = []\<rparr> (?hs # ?rws)
          PAYMENT None '''' None = (Some job_id, m')"
    by blast
  from t [THEN conjunct1, rule_format, OF r] obtain j' where
    "get_batch_job m' job_id = Some j'"
    "map data (items j') =
       map (\<lambda>row. filter (\<lambda>(key, v). \<not> special_prefix key) (fst (DictReader_row ?hs row)))
         (filter (\<lambda>r. r \<noteq> []) ?rws)"
    by blast
  with r have a: "\<exists>job_id m' j'.
      import_batch_from_csv demo_render demo_uuid (\<lambda>k. int k) \<lparr>batch_jobs = []\<rparr> demo_file PAYMENT
          None '''' None = (Some job_id, m')
    \<and> get_batch_job m' job_id = Some j'
    \<and> map data (items j') = [[(''amount'', Some ''10.00''), (''data_card'', Some ''4111'')]]"
    unfolding v demo_file_def by - ((rule exI conjI | assumption)+)
  have big: "\<not> ((\<forall>row \<in> set ([''amount''] # [[replicate 131073 CHR ''7'']]).
                    \<forall>cell \<in> set row. length cell \<le> field_size_limit)
                 \<and> (\<forall>r \<in> set [[replicate 131073 CHR ''7'']]. length r \<le> length [''amount'']))"
    by (simp add: field_size_limit_def)
  from import_excludes_special_columns
         [of demo_render demo_uuid "\<lambda>k. int k" "\<lparr>batch_jobs = []\<rparr>" "[''amount'']"
             "[[replicate 131073 CHR ''7'']]" PAYMENT None "''''" None,
          THEN conjunct2, THEN conjunct2, THEN conjunct1, THEN mp, OF big]
  have b: "import_batch_from_csv demo_render demo_uuid (\<lambda>k. int k) \<lparr>batch_jobs = []\<rparr>
        [[''amount''], [replicate 131073 CHR ''7'']] PAYMENT None '''' None
       = (None, \<lparr>batch_jobs = []\<rparr>)" .
  from a b show ?thesis by (rule conjI)
qed


end
